theory Spec2Isabelle
  imports Complex_Main
begin

section \<open>Strings and dictionaries as the Python code uses them\<close>

text \<open>
  Python strings are modelled as \<open>string\<close>, one \<open>char\<close> per code point below 256.
  \<open>str.strip()\<close> removes leading and trailing white space; below 256 the code points
  for which \<open>str.isspace\<close> holds are 9..13, 28..32, 133 and 160.
\<close>

definition is_space :: "char \<Rightarrow> bool" where
  "is_space c = (c \<in> set [CHR 0x09, CHR 0x0A, CHR 0x0B, CHR 0x0C, CHR 0x0D,
                           CHR 0x1C, CHR 0x1D, CHR 0x1E, CHR 0x1F, CHR 0x20,
                           CHR 0x85, CHR 0xA0])"

definition strip :: "string \<Rightarrow> string" where
  "strip s = rev (dropWhile is_space (rev (dropWhile is_space s)))"

text \<open>\<open>(x or "")\<close> for an argument that may be \<open>None\<close>.\<close>

definition or_empty :: "string option \<Rightarrow> string" where
  "or_empty x = (case x of None \<Rightarrow> [] | Some s \<Rightarrow> s)"

text \<open>\<open>not x or not x.strip()\<close> for an argument that may be \<open>None\<close>.\<close>

definition blank :: "string option \<Rightarrow> bool" where
  "blank x = (case x of None \<Rightarrow> True | Some s \<Rightarrow> s = [] \<or> strip s = [])"

text \<open>
  A dict is kept as the sequence of its insertions; a later insertion of a key
  overrides an earlier one. \<open>dict_get d k v\<close> is \<open>d.get(k, v)\<close>.
\<close>

type_synonym dict = "(string \<times> string) list"

definition dict_get :: "dict \<Rightarrow> string \<Rightarrow> string \<Rightarrow> string" where
  "dict_get d k v = (case map_of (rev d) k of None \<Rightarrow> v | Some r \<Rightarrow> r)"

section \<open>The engine object and the shared model state (demo.py)\<close>

text \<open>
  \<open>Qwen3TTSModel\<close> is an external capability. The model keeps of it an identity, the
  attribute \<open>tts.model.tts_model_type\<close> (missing, \<open>None\<close> or a string), and for
  languages and speakers the pairs \<open>zip(display, items)\<close> that
  \<open>_build_choices_and_map\<close> forms from the supported names (the display names are the
  title-cased raw names; the title-casing itself is not modelled).
\<close>

datatype attr = Attr_Missing | Attr_None | Attr_Str string

text \<open>\<open>getattr(obj, name, default)\<close>: the default stands in only for a missing attribute.\<close>

fun getattr :: "attr \<Rightarrow> string option \<Rightarrow> string option" where
  "getattr Attr_Missing dflt = dflt"
| "getattr Attr_None dflt = None"
| "getattr (Attr_Str x) dflt = Some x"

record engine =
  eng_id :: nat
  eng_model_type :: attr
  eng_langs :: dict
  eng_spks :: dict

datatype exn =
    ValueError string
  | TypeError string
  | IndexError string
  | Raised string

text \<open>The eight entries of \<open>_MODEL_STATE\<close> that \<open>_build_model_state\<close> produces.\<close>

record model_info =
  tts :: "engine option"
  ckpt :: string
  model_kind :: string
  lang_choices_disp :: "string list"
  lang_choices_ui :: "string list"
  lang_map :: dict
  spk_choices_disp :: "string list"
  spk_map :: dict

definition detect_model_kind :: "string \<Rightarrow> engine \<Rightarrow> exn + string" where
  "detect_model_kind ck e =
     (case getattr (eng_model_type e) None of
        None \<Rightarrow> Inl (ValueError ''Unknown Qwen-TTS model type: None'')
      | Some mt \<Rightarrow>
          if mt \<in> set [''custom_voice'', ''voice_design'', ''base''] then Inr mt
          else Inl (ValueError (''Unknown Qwen-TTS model type: '' @ mt)))"

definition build_model_state :: "engine \<Rightarrow> string \<Rightarrow> exn + model_info" where
  "build_model_state e ck =
     (case detect_model_kind ck e of
        Inl x \<Rightarrow> Inl x
      | Inr mk \<Rightarrow>
          let lang_disp = map fst (eng_langs e);
              spk_disp = map fst (eng_spks e);
              lang_ui = (if ''Auto'' \<in> set lang_disp then lang_disp else ''Auto'' # lang_disp)
          in Inr \<lparr> tts = Some e, ckpt = ck, model_kind = mk,
                   lang_choices_disp = lang_disp, lang_choices_ui = lang_ui,
                   lang_map = (''Auto'', ''Auto'') # eng_langs e,
                   spk_choices_disp = spk_disp, spk_map = eng_spks e \<rparr>)"

text \<open>The dict that \<open>_reload_model\<close> writes into \<open>_MODEL_STATE\<close> once the jobs have drained.\<close>

definition cleared :: model_info where
  "cleared = \<lparr> tts = None, ckpt = [], model_kind = [],
               lang_choices_disp = [], lang_choices_ui = [], lang_map = [],
               spk_choices_disp = [], spk_map = [] \<rparr>"

text \<open>The copy of five entries that \<open>_use_model\<close> yields to its caller.\<close>

record snapshot =
  snap_tts :: "engine option"
  snap_ckpt :: string
  snap_model_kind :: string
  snap_lang_map :: dict
  snap_spk_map :: dict

definition snapshot_of :: "model_info \<Rightarrow> snapshot" where
  "snapshot_of m = \<lparr> snap_tts = tts m, snap_ckpt = ckpt m, snap_model_kind = model_kind m,
                      snap_lang_map = lang_map m, snap_spk_map = spk_map m \<rparr>"

section \<open>Requests, generation arguments and outcomes of the demo handlers\<close>

text \<open>
  The advanced parameters arrive from the sliders and check boxes; \<open>_gen_common_kwargs\<close>
  coerces them with \<open>int\<close>, \<open>float\<close> and \<open>bool\<close> and checks no range. Integer-valued
  parameters are \<open>int\<close>, the others \<open>real\<close>; none enters any arithmetic.
\<close>

record gen_kwargs =
  max_new_tokens :: int
  temperature :: real
  top_k :: int
  top_p :: real
  repetition_penalty :: real
  do_sample :: bool
  subtalker_dosample :: bool
  subtalker_temperature :: real
  subtalker_top_k :: int
  subtalker_top_p :: real

datatype adv_params =
  Adv int real int real real bool bool real int real

fun gen_common_kwargs :: "adv_params \<Rightarrow> gen_kwargs" where
  "gen_common_kwargs (Adv max_tokens temp tk tp rep_pen ds sub_ds sub_temp sub_tk sub_tp) =
     \<lparr> max_new_tokens = max_tokens, temperature = temp, top_k = tk, top_p = tp,
       repetition_penalty = rep_pen, do_sample = ds, subtalker_dosample = sub_ds,
       subtalker_temperature = sub_temp, subtalker_top_k = sub_tk,
       subtalker_top_p = sub_tp \<rparr>"

text \<open>
  Reference audio as Gradio hands it over. The samples are opaque; of their array only
  whether its dtype is numeric matters, since \<open>_normalize_audio\<close> raises \<open>TypeError\<close>
  otherwise.
\<close>

datatype raw_wav = Raw_Wav (numeric: bool) (wav_id: nat)

datatype audio_in =
    Audio_None
  | Audio_Tuple int raw_wav
  | Audio_Dict int raw_wav
  | Audio_Other

datatype wav = Wav nat

fun normalize_audio :: "raw_wav \<Rightarrow> exn + wav" where
  "normalize_audio (Raw_Wav num i) =
     (if num then Inr (Wav i) else Inl (TypeError ''Unsupported dtype''))"

fun audio_to_tuple :: "audio_in \<Rightarrow> exn + (wav \<times> int) option" where
  "audio_to_tuple Audio_None = Inr None"
| "audio_to_tuple (Audio_Tuple sr w) =
     (case normalize_audio w of Inl x \<Rightarrow> Inl x | Inr y \<Rightarrow> Inr (Some (y, sr)))"
| "audio_to_tuple (Audio_Dict sr w) =
     (case normalize_audio w of Inl x \<Rightarrow> Inl x | Inr y \<Rightarrow> Inr (Some (y, sr)))"
| "audio_to_tuple Audio_Other = Inr None"

datatype request =
    Instruct "string option" "string option" "string option" "string option" adv_params
  | Design "string option" "string option" "string option" adv_params
  | Clone audio_in "string option" bool "string option" "string option" adv_params

text \<open>What a handler hands to the engine: the method and its keyword arguments.\<close>

datatype engine_call =
    Generate_Custom_Voice nat string string string "string option" gen_kwargs
  | Generate_Voice_Design nat string string string gen_kwargs
  | Generate_Voice_Clone nat string string "wav \<times> int" "string option" bool gen_kwargs

text \<open>
  The second component of a handler's result names the outcome; the messages of the
  source are kept as constructors.
\<close>

datatype outcome =
    Generation_Complete int wav
  | Text_Required
  | Speaker_Required
  | Design_Required
  | Target_Text_Required
  | Reference_Audio_Required
  | Reference_Text_Required
  | Model_Not_Loaded
  | Not_Supported string
  | Caught exn

text \<open>
  The part of a handler before \<open>with _use_model() as state\<close>: \<open>Some\<close> outcome when the
  handler returns without acquiring, \<open>None\<close> when it goes on to acquire.
\<close>

fun pre_checks :: "request \<Rightarrow> outcome option" where
  "pre_checks (Instruct txt lang_disp spk_disp instruct adv) =
     (if blank txt then Some Text_Required
      else if spk_disp = None \<or> spk_disp = Some [] then Some Speaker_Required
      else None)"
| "pre_checks (Design txt lang_disp design adv) =
     (if blank txt then Some Text_Required
      else if blank design then Some Design_Required
      else None)"
| "pre_checks (Clone ref_aud ref_txt use_xvec txt lang_disp adv) =
     (if blank txt then Some Target_Text_Required
      else case audio_to_tuple ref_aud of
             Inl x \<Rightarrow> Some (Caught x)
           | Inr None \<Rightarrow> Some Reference_Audio_Required
           | Inr (Some aud) \<Rightarrow>
               if \<not> use_xvec \<and> blank ref_txt then Some Reference_Text_Required
               else None)"

definition language_of :: "snapshot \<Rightarrow> string option \<Rightarrow> string" where
  "language_of sn lang_disp =
     (case lang_disp of None \<Rightarrow> ''Auto''
      | Some l \<Rightarrow> dict_get (snap_lang_map sn) l ''Auto'')"

definition strip_or_none :: "string option \<Rightarrow> string option" where
  "strip_or_none x = (let y = strip (or_empty x) in if y = [] then None else Some y)"

text \<open>
  The part of a handler inside the \<open>with\<close> block up to the call of the engine:
  \<open>Inl\<close> outcome when it returns without calling the engine, \<open>Inr\<close> the call it makes.
  \<open>run_voice_clone\<close> uses the audio tuple computed before the block; here it is computed
  again from the request, and the two branches in which there is none cannot be reached
  once \<open>pre_checks\<close> has passed.
\<close>

fun body :: "request \<Rightarrow> snapshot \<Rightarrow> outcome + engine_call" where
  "body (Instruct txt lang_disp spk_disp instruct adv) sn =
     (case snap_tts sn of
        None \<Rightarrow> Inl Model_Not_Loaded
      | Some e \<Rightarrow>
          if snap_model_kind sn \<noteq> ''custom_voice'' then Inl (Not_Supported ''CustomVoice'')
          else Inr (Generate_Custom_Voice (eng_id e) (strip (or_empty txt))
                      (language_of sn lang_disp)
                      (dict_get (snap_spk_map sn) (or_empty spk_disp) (or_empty spk_disp))
                      (strip_or_none instruct) (gen_common_kwargs adv)))"
| "body (Design txt lang_disp design adv) sn =
     (case snap_tts sn of
        None \<Rightarrow> Inl Model_Not_Loaded
      | Some e \<Rightarrow>
          if snap_model_kind sn \<noteq> ''voice_design'' then Inl (Not_Supported ''VoiceDesign'')
          else Inr (Generate_Voice_Design (eng_id e) (strip (or_empty txt))
                      (language_of sn lang_disp) (strip (or_empty design))
                      (gen_common_kwargs adv)))"
| "body (Clone ref_aud ref_txt use_xvec txt lang_disp adv) sn =
     (case snap_tts sn of
        None \<Rightarrow> Inl Model_Not_Loaded
      | Some e \<Rightarrow>
          if snap_model_kind sn \<noteq> ''base'' then Inl (Not_Supported ''voice cloning'')
          else case audio_to_tuple ref_aud of
                 Inr (Some aud) \<Rightarrow>
                   Inr (Generate_Voice_Clone (eng_id e) (strip (or_empty txt))
                          (language_of sn lang_disp) aud
                          (case ref_txt of None \<Rightarrow> None
                           | Some r \<Rightarrow> if r = [] then None else Some (strip r))
                          use_xvec (gen_common_kwargs adv))
               | Inr None \<Rightarrow> Inl Reference_Audio_Required
               | Inl x \<Rightarrow> Inl (Caught x))"

text \<open>What the engine does with a call is not fixed here: it raises or returns.\<close>

datatype engine_result = Eng_Raise string | Eng_Return "wav list" int

text \<open>Likewise \<open>Qwen3TTSModel.from_pretrained\<close> raises or returns an engine.\<close>

datatype load_result = Load_Raise string | Load_Return engine

fun finish :: "engine_result \<Rightarrow> outcome" where
  "finish (Eng_Raise msg) = Caught (Raised msg)"
| "finish (Eng_Return [] sr) = Caught (IndexError ''list index out of range'')"
| "finish (Eng_Return (w # ws) sr) = Generation_Complete sr w"

text \<open>
  The value of \<open>model_kind\<close> that each handler compares the snapshot with, and what it
  returns when the comparison fails.
\<close>

fun wanted_kind :: "request \<Rightarrow> string" where
  "wanted_kind (Instruct txt lang_disp spk_disp instruct adv) = ''custom_voice''"
| "wanted_kind (Design txt lang_disp design adv) = ''voice_design''"
| "wanted_kind (Clone ref_aud ref_txt use_xvec txt lang_disp adv) = ''base''"

text \<open>The advanced parameters of a request, and the \<open>**kwargs\<close> of an engine call.\<close>

fun adv_of :: "request \<Rightarrow> adv_params" where
  "adv_of (Instruct txt lang_disp spk_disp instruct adv) = adv"
| "adv_of (Design txt lang_disp design adv) = adv"
| "adv_of (Clone ref_aud ref_txt use_xvec txt lang_disp adv) = adv"

fun call_kwargs :: "engine_call \<Rightarrow> gen_kwargs" where
  "call_kwargs (Generate_Custom_Voice i txt lang spk instruct kw) = kw"
| "call_kwargs (Generate_Voice_Design i txt lang instruct kw) = kw"
| "call_kwargs (Generate_Voice_Clone i txt lang aud ref_txt xvec kw) = kw"

fun unsupported :: "request \<Rightarrow> outcome" where
  "unsupported (Instruct txt lang_disp spk_disp instruct adv) = Not_Supported ''CustomVoice''"
| "unsupported (Design txt lang_disp design adv) = Not_Supported ''VoiceDesign''"
| "unsupported (Clone ref_aud ref_txt use_xvec txt lang_disp adv) = Not_Supported ''voice cloning''"

section \<open>Threads over the shared state: \<open>_use_model\<close> and \<open>_reload_model\<close>\<close>

text \<open>
  Every thread runs one call. Its control point names the statement it executes next.
  \<open>_STATE_COND\<close> is a condition variable over the one lock \<open>_STATE_LOCK\<close>:
  entering \<open>with _STATE_COND\<close> takes the lock, leaving it gives the lock back,
  \<open>wait()\<close> gives the lock back and blocks until a \<open>notify_all()\<close>, after which the
  thread takes the lock again before it goes on.
\<close>

datatype pc =
    Idle
  | Use_Lock request
  | Use_Check request
  | Use_Wait request
  | Use_Wake request
  | Use_Incr request
  | Use_Snap request
  | Use_Body request snapshot
  | Fin_Lock outcome
  | Fin_Dec outcome
  | Fin_Notify outcome
  | Returned outcome
  | Rel_Lock string
  | Rel_Flag string
  | Rel_Drain string
  | Rel_Wait string
  | Rel_Wake string
  | Rel_Clear string
  | Rel_Load string
  | Pub_Lock model_info
  | Pub_Update model_info
  | Exc_Lock exn
  | Exc_Flag exn
  | Exc_Notify exn
  | Rel_Raised exn
  | End_Lock model_info
  | End_Flag model_info
  | End_Notify model_info
  | Rel_Returned model_info

record sys =
  info :: model_info
  active_jobs :: int
  reloading :: bool
  lock_owner :: "nat option"
  threads :: "pc list"
  engine_log :: "engine_call list"

text \<open>What the scheduler or the environment decides at a step.\<close>

datatype choice =
    Tau
  | Call request
  | Call_Reload "string option"
  | Load load_result
  | Engine engine_result

definition goto :: "nat \<Rightarrow> pc \<Rightarrow> sys \<Rightarrow> sys" where
  "goto t p s = s\<lparr>threads := (threads s)[t := p]\<rparr>"

definition acquire_lock :: "nat \<Rightarrow> pc \<Rightarrow> sys \<Rightarrow> sys option" where
  "acquire_lock t p s =
     (if lock_owner s = None then Some (goto t p (s\<lparr>lock_owner := Some t\<rparr>)) else None)"

definition release_lock :: "sys \<Rightarrow> sys" where
  "release_lock s = s\<lparr>lock_owner := None\<rparr>"

fun wake :: "pc \<Rightarrow> pc" where
  "wake (Use_Wait r) = Use_Wake r"
| "wake (Rel_Wait ck) = Rel_Wake ck"
| "wake p = p"

definition notify_all :: "sys \<Rightarrow> sys" where
  "notify_all s = s\<lparr>threads := map wake (threads s)\<rparr>"

definition step :: "nat \<Rightarrow> choice \<Rightarrow> sys \<Rightarrow> sys option" where
  "step t c s =
    (if length (threads s) \<le> t then None
     else case threads s ! t of
       Idle \<Rightarrow>
         (case c of
            Call r \<Rightarrow>
              (case pre_checks r of
                 Some out \<Rightarrow> Some (goto t (Returned out) s)
               | None \<Rightarrow> Some (goto t (Use_Lock r) s))
          | Call_Reload ck \<Rightarrow>
              (let ck' = strip (or_empty ck) in
               if ck' = [] then Some (goto t (Rel_Raised (ValueError ''Checkpoint is required.'')) s)
               else Some (goto t (Rel_Lock ck') s))
          | _ \<Rightarrow> None)
     | Use_Lock r \<Rightarrow> acquire_lock t (Use_Check r) s
     | Use_Check r \<Rightarrow>
         (if reloading s then Some (goto t (Use_Wait r) (release_lock s))
          else Some (goto t (Use_Incr r) s))
     | Use_Wait r \<Rightarrow> None
     | Use_Wake r \<Rightarrow> acquire_lock t (Use_Check r) s
     | Use_Incr r \<Rightarrow> Some (goto t (Use_Snap r) (s\<lparr>active_jobs := active_jobs s + 1\<rparr>))
     | Use_Snap r \<Rightarrow> Some (goto t (Use_Body r (snapshot_of (info s))) (release_lock s))
     | Use_Body r sn \<Rightarrow>
         (case body r sn of
            Inl out \<Rightarrow> Some (goto t (Fin_Lock out) s)
          | Inr call \<Rightarrow>
              (case c of
                 Engine res \<Rightarrow>
                   Some (goto t (Fin_Lock (finish res)) (s\<lparr>engine_log := engine_log s @ [call]\<rparr>))
               | _ \<Rightarrow> None))
     | Fin_Lock out \<Rightarrow> acquire_lock t (Fin_Dec out) s
     | Fin_Dec out \<Rightarrow> Some (goto t (Fin_Notify out) (s\<lparr>active_jobs := active_jobs s - 1\<rparr>))
     | Fin_Notify out \<Rightarrow>
         (if active_jobs s \<le> 0 then Some (goto t (Returned out) (release_lock (notify_all s)))
          else Some (goto t (Returned out) (release_lock s)))
     | Returned out \<Rightarrow> None
     | Rel_Lock ck \<Rightarrow> acquire_lock t (Rel_Flag ck) s
     | Rel_Flag ck \<Rightarrow> Some (goto t (Rel_Drain ck) (s\<lparr>reloading := True\<rparr>))
     | Rel_Drain ck \<Rightarrow>
         (if active_jobs s > 0 then Some (goto t (Rel_Wait ck) (release_lock s))
          else Some (goto t (Rel_Clear ck) s))
     | Rel_Wait ck \<Rightarrow> None
     | Rel_Wake ck \<Rightarrow> acquire_lock t (Rel_Drain ck) s
     | Rel_Clear ck \<Rightarrow> Some (goto t (Rel_Load ck) (release_lock (s\<lparr>info := cleared\<rparr>)))
     | Rel_Load ck \<Rightarrow>
         (case c of
            Load (Load_Raise msg) \<Rightarrow> Some (goto t (Exc_Lock (Raised msg)) s)
          | Load (Load_Return e) \<Rightarrow>
              (case build_model_state e ck of
                 Inl x \<Rightarrow> Some (goto t (Exc_Lock x) s)
               | Inr st \<Rightarrow> Some (goto t (Pub_Lock st) s))
          | _ \<Rightarrow> None)
     | Pub_Lock st \<Rightarrow> acquire_lock t (Pub_Update st) s
     | Pub_Update st \<Rightarrow> Some (goto t (End_Lock st) (release_lock (s\<lparr>info := st\<rparr>)))
     | Exc_Lock x \<Rightarrow> acquire_lock t (Exc_Flag x) s
     | Exc_Flag x \<Rightarrow> Some (goto t (Exc_Notify x) (s\<lparr>reloading := False\<rparr>))
     | Exc_Notify x \<Rightarrow> Some (goto t (Rel_Raised x) (release_lock (notify_all s)))
     | Rel_Raised x \<Rightarrow> None
     | End_Lock st \<Rightarrow> acquire_lock t (End_Flag st) s
     | End_Flag st \<Rightarrow> Some (goto t (End_Notify st) (s\<lparr>reloading := False\<rparr>))
     | End_Notify st \<Rightarrow> Some (goto t (Rel_Returned st) (release_lock (notify_all s)))
     | Rel_Returned st \<Rightarrow> None)"

text \<open>A schedule names, step by step, the thread that moves and the choice made for it.\<close>

fun run :: "(nat \<times> choice) list \<Rightarrow> sys \<Rightarrow> sys option" where
  "run [] s = Some s"
| "run ((t, c) # sched) s = (case step t c s of None \<Rightarrow> None | Some s' \<Rightarrow> run sched s')"

text \<open>
  The process starts with \<open>n\<close> threads that have not called anything, nobody holding the
  lock, no job active and no reload under way; \<open>m\<close> is what \<open>main\<close> has stored
  (or the initial empty entries when nothing was loaded).
\<close>

definition init_sys :: "nat \<Rightarrow> model_info \<Rightarrow> sys" where
  "init_sys n m = \<lparr> info = m, active_jobs = 0, reloading = False, lock_owner = None,
                    threads = replicate n Idle, engine_log = [] \<rparr>"

text \<open>One thread running alone: every step of the schedule is its own.\<close>

definition solo :: "nat \<Rightarrow> choice list \<Rightarrow> (nat \<times> choice) list" where
  "solo t cs = map (Pair t) cs"

text \<open>
  The nine steps of a handler call that nobody interferes with: the call, the lock, the
  test of \<open>reloading\<close>, the increment, the snapshot, the body with the engine's answer
  \<open>res\<close> (unused when the body returns before the engine), and the three steps of
  \<open>finally\<close>.
\<close>

definition call_alone :: "nat \<Rightarrow> request \<Rightarrow> engine_result \<Rightarrow> (nat \<times> choice) list" where
  "call_alone t rq res = solo t [Call rq, Tau, Tau, Tau, Tau, Engine res, Tau, Tau, Tau]"

text \<open>
  The steps of \<open>_reload_model\<close> up to the moment it has cleared the entries and left the
  lock, when it finds no job active.
\<close>

definition reload_begin :: "nat \<Rightarrow> string option \<Rightarrow> (nat \<times> choice) list" where
  "reload_begin t ck = solo t [Call_Reload ck, Tau, Tau, Tau, Tau]"

text \<open>The steps of a reload whose construction raises: the attempt and the handler.\<close>

definition reload_fails :: "nat \<Rightarrow> string \<Rightarrow> (nat \<times> choice) list" where
  "reload_fails t msg = solo t [Load (Load_Raise msg), Tau, Tau, Tau]"


subsection \<open>Predicates on control points\<close>

text \<open>The control points inside a \<open>with _STATE_COND\<close> block.\<close>

fun holds_lock :: "pc \<Rightarrow> bool" where
  "holds_lock (Use_Check r) = True"
| "holds_lock (Use_Incr r) = True"
| "holds_lock (Use_Snap r) = True"
| "holds_lock (Fin_Dec out) = True"
| "holds_lock (Fin_Notify out) = True"
| "holds_lock (Rel_Flag ck) = True"
| "holds_lock (Rel_Drain ck) = True"
| "holds_lock (Rel_Clear ck) = True"
| "holds_lock (Pub_Update st) = True"
| "holds_lock (Exc_Flag x) = True"
| "holds_lock (Exc_Notify x) = True"
| "holds_lock (End_Flag st) = True"
| "holds_lock (End_Notify st) = True"
| "holds_lock p = False"

text \<open>A handle is outstanding from the increment up to the decrement.\<close>

fun outstanding :: "pc \<Rightarrow> bool" where
  "outstanding (Use_Snap r) = True"
| "outstanding (Use_Body r sn) = True"
| "outstanding (Fin_Lock out) = True"
| "outstanding (Fin_Dec out) = True"
| "outstanding p = False"

text \<open>Past the loop on \<open>reloading\<close> and still inside the critical section.\<close>

fun admitted :: "pc \<Rightarrow> bool" where
  "admitted (Use_Incr r) = True"
| "admitted (Use_Snap r) = True"
| "admitted p = False"

text \<open>Past the loop on \<open>active_jobs\<close> and about to clear the entries.\<close>

fun drained :: "pc \<Rightarrow> bool" where
  "drained (Rel_Clear ck) = True"
| "drained p = False"

text \<open>Blocked in \<open>_STATE_COND.wait()\<close>.\<close>

fun waiting :: "pc \<Rightarrow> bool" where
  "waiting (Use_Wait r) = True"
| "waiting (Rel_Wait ck) = True"
| "waiting p = False"

text \<open>Inside a call of \<open>_reload_model\<close>: from the call up to its return or its raise.\<close>

fun in_reload :: "pc \<Rightarrow> bool" where
  "in_reload (Rel_Lock ck) = True"
| "in_reload (Rel_Flag ck) = True"
| "in_reload (Rel_Drain ck) = True"
| "in_reload (Rel_Wait ck) = True"
| "in_reload (Rel_Wake ck) = True"
| "in_reload (Rel_Clear ck) = True"
| "in_reload (Rel_Load ck) = True"
| "in_reload (Pub_Lock st) = True"
| "in_reload (Pub_Update st) = True"
| "in_reload (Exc_Lock x) = True"
| "in_reload (Exc_Flag x) = True"
| "in_reload (Exc_Notify x) = True"
| "in_reload (End_Lock st) = True"
| "in_reload (End_Flag st) = True"
| "in_reload (End_Notify st) = True"
| "in_reload p = False"

text \<open>Between setting \<open>reloading\<close> to true and setting it back to false.\<close>

fun flagged :: "pc \<Rightarrow> bool" where
  "flagged (Rel_Drain ck) = True"
| "flagged (Rel_Wait ck) = True"
| "flagged (Rel_Wake ck) = True"
| "flagged (Rel_Clear ck) = True"
| "flagged (Rel_Load ck) = True"
| "flagged (Pub_Lock st) = True"
| "flagged (Pub_Update st) = True"
| "flagged (Exc_Lock x) = True"
| "flagged (Exc_Flag x) = True"
| "flagged (End_Lock st) = True"
| "flagged (End_Flag st) = True"
| "flagged p = False"

text \<open>Between leaving the loop on \<open>active_jobs\<close> and storing the new entries.\<close>

fun swapping :: "pc \<Rightarrow> bool" where
  "swapping (Rel_Clear ck) = True"
| "swapping (Rel_Load ck) = True"
| "swapping (Pub_Lock st) = True"
| "swapping (Pub_Update st) = True"
| "swapping p = False"

text \<open>
  Between clearing the entries and either storing the new ones or leaving the handler of
  a failed construction.
\<close>

fun emptied :: "pc \<Rightarrow> bool" where
  "emptied (Rel_Load ck) = True"
| "emptied (Pub_Lock st) = True"
| "emptied (Pub_Update st) = True"
| "emptied (Exc_Lock x) = True"
| "emptied (Exc_Flag x) = True"
| "emptied (Exc_Notify x) = True"
| "emptied p = False"

text \<open>About to call \<open>notify_all\<close> at the end of a reload, with \<open>reloading\<close> set back.\<close>

fun notifying :: "pc \<Rightarrow> bool" where
  "notifying (Exc_Notify x) = True"
| "notifying (End_Notify st) = True"
| "notifying p = False"

subsection \<open>Invariants of the reachable states\<close>

definition lock_inv :: "sys \<Rightarrow> bool" where
  "lock_inv s =
     (\<forall>t < length (threads s). holds_lock (threads s ! t) \<longrightarrow> lock_owner s = Some t)"

definition count_inv :: "sys \<Rightarrow> bool" where
  "count_inv s = (active_jobs s = int (length (filter outstanding (threads s))))"

definition admit_inv :: "sys \<Rightarrow> bool" where
  "admit_inv s = (\<forall>t < length (threads s). admitted (threads s ! t) \<longrightarrow> \<not> reloading s)"

definition drain_inv :: "sys \<Rightarrow> bool" where
  "drain_inv s = (\<forall>t < length (threads s). drained (threads s ! t) \<longrightarrow> active_jobs s \<le> 0)"

definition owner_inv :: "sys \<Rightarrow> bool" where
  "owner_inv s =
     (case lock_owner s of
        None \<Rightarrow> True
      | Some t \<Rightarrow> t < length (threads s) \<and> holds_lock (threads s ! t))"

definition notify_inv :: "sys \<Rightarrow> bool" where
  "notify_inv s = (\<forall>t < length (threads s). notifying (threads s ! t) \<longrightarrow> \<not> reloading s)"

definition invariant :: "sys \<Rightarrow> bool" where
  "invariant s =
     (lock_inv s \<and> count_inv s \<and> admit_inv s \<and> drain_inv s \<and> owner_inv s \<and> notify_inv s)"

text \<open>
  At most one call of \<open>_reload_model\<close> is under way in a state; and a schedule along
  which that holds in every state it passes: the reloads are made one after the other.
\<close>

definition one_reload :: "sys \<Rightarrow> bool" where
  "one_reload s = (length (filter in_reload (threads s)) \<le> 1)"

fun never_overlap :: "(nat \<times> choice) list \<Rightarrow> sys \<Rightarrow> bool" where
  "never_overlap [] s = one_reload s"
| "never_overlap ((t, c) # sched) s =
     (one_reload s \<and> (case step t c s of None \<Rightarrow> True | Some s' \<Rightarrow> never_overlap sched s'))"

definition serial_inv :: "sys \<Rightarrow> bool" where
  "serial_inv s =
     (\<forall>r < length (threads s).
        (flagged (threads s ! r) \<longrightarrow> reloading s) \<and>
        (swapping (threads s ! r) \<longrightarrow> active_jobs s \<le> 0) \<and>
        (emptied (threads s ! r) \<longrightarrow> info s = cleared))"

section \<open>The REST wrapper (qwen_tts_api.py)\<close>

text \<open>
  The wrapper keeps the engine in three module globals and has no job counter. A handler
  answers with a file or raises \<open>HTTPException(status_code, detail)\<close>. Writing the
  result to a temporary file is taken to succeed.
\<close>

record api_state =
  tts_model :: "engine option"
  model_kind_api :: "string option"
  model_checkpoint :: "string option"
  api_engine_log :: "engine_call list"

datatype http =
    File_Response string wav int
  | Http_Exception nat string

text \<open>\<open>TTSRequest\<close>: every field is typed, none carries a bound.\<close>

record tts_request =
  req_text :: string
  req_language :: string
  req_max_new_tokens :: int
  req_temperature :: real
  req_top_k :: int
  req_top_p :: real
  req_repetition_penalty :: real
  req_do_sample :: bool
  req_subtalker_dosample :: bool
  req_subtalker_temperature :: real
  req_subtalker_top_k :: int
  req_subtalker_top_p :: real

record voice_design_request = tts_request +
  req_design :: string

record custom_voice_request = tts_request +
  req_speaker :: string
  req_instruct :: "string option"

text \<open>
  The form of \<open>/api/voice-clone\<close> has the fields of \<open>TTSRequest\<close> and three more. The
  upload is required by the framework; \<open>torchaudio.load\<close> either reads it or raises,
  and then the text of the exception is the detail of the 500.
\<close>

datatype upload = Readable nat | Unreadable string

record voice_clone_form = tts_request +
  form_ref_audio :: upload
  form_ref_text :: "string option"
  form_x_vector_only :: bool

text \<open>The \<open>kwargs\<close> dict that each handler builds from the request.\<close>

definition kwargs_of :: "'a tts_request_scheme \<Rightarrow> gen_kwargs" where
  "kwargs_of rq =
     \<lparr> max_new_tokens = req_max_new_tokens rq, temperature = req_temperature rq,
       top_k = req_top_k rq, top_p = req_top_p rq,
       repetition_penalty = req_repetition_penalty rq, do_sample = req_do_sample rq,
       subtalker_dosample = req_subtalker_dosample rq,
       subtalker_temperature = req_subtalker_temperature rq,
       subtalker_top_k = req_subtalker_top_k rq,
       subtalker_top_p = req_subtalker_top_p rq \<rparr>"

definition kind_text :: "string option \<Rightarrow> string" where
  "kind_text k = (case k of None \<Rightarrow> ''None'' | Some x \<Rightarrow> x)"

text \<open>The answer built from what the engine returned, or the 500 of the \<open>except\<close> clause.\<close>

fun respond :: "string \<Rightarrow> engine_result \<Rightarrow> http" where
  "respond name (Eng_Raise msg) = Http_Exception 500 msg"
| "respond name (Eng_Return [] sr) = Http_Exception 500 ''list index out of range''"
| "respond name (Eng_Return (w # ws) sr) = File_Response name w sr"

definition voice_design ::
  "voice_design_request \<Rightarrow> engine_result \<Rightarrow> api_state \<Rightarrow> http \<times> api_state" where
  "voice_design rq res st =
     (case tts_model st of
        None \<Rightarrow> (Http_Exception 503 ''Model not loaded'', st)
      | Some e \<Rightarrow>
          if model_kind_api st \<notin> set [Some ''voice_design'', Some ''base'']
          then (Http_Exception 400
                  (''Voice design not supported for '' @ kind_text (model_kind_api st) @ '' model''),
                st)
          else (respond ''voice_design.wav'' res,
                st\<lparr>api_engine_log := api_engine_log st @
                     [Generate_Voice_Design (eng_id e) (req_text rq) (req_language rq)
                        (req_design rq) (kwargs_of rq)]\<rparr>))"

definition custom_voice ::
  "custom_voice_request \<Rightarrow> engine_result \<Rightarrow> api_state \<Rightarrow> http \<times> api_state" where
  "custom_voice rq res st =
     (case tts_model st of
        None \<Rightarrow> (Http_Exception 503 ''Model not loaded'', st)
      | Some e \<Rightarrow>
          if model_kind_api st \<noteq> Some ''custom_voice''
          then (Http_Exception 400
                  (''Custom voice not supported for '' @ kind_text (model_kind_api st) @ '' model''),
                st)
          else (respond ''custom_voice.wav'' res,
                st\<lparr>api_engine_log := api_engine_log st @
                     [Generate_Custom_Voice (eng_id e) (req_text rq) (req_language rq)
                        (req_speaker rq) (req_instruct rq) (kwargs_of rq)]\<rparr>))"

definition voice_clone ::
  "voice_clone_form \<Rightarrow> engine_result \<Rightarrow> api_state \<Rightarrow> http \<times> api_state" where
  "voice_clone f res st =
     (case tts_model st of
        None \<Rightarrow> (Http_Exception 503 ''Model not loaded'', st)
      | Some e \<Rightarrow>
          if model_kind_api st \<noteq> Some ''base''
          then (Http_Exception 400
                  (''Voice cloning not supported for '' @ kind_text (model_kind_api st) @ '' model''),
                st)
          else case form_ref_audio f of
                 Unreadable msg \<Rightarrow> (Http_Exception 500 msg, st)
               | Readable i \<Rightarrow>
                   (respond ''voice_clone.wav'' res,
                    st\<lparr>api_engine_log := api_engine_log st @
                         [Generate_Voice_Clone (eng_id e) (req_text f) (req_language f)
                            (Wav i, 12000)
                            (case form_ref_text f of None \<Rightarrow> None
                             | Some r \<Rightarrow> if r = [] then None else Some r)
                            (form_x_vector_only f) (kwargs_of f)]\<rparr>))"

text \<open>\<open>_clear_model\<close> and \<open>_load_model\<close>: the old engine is dropped before the new one is built.\<close>

definition clear_model :: "api_state \<Rightarrow> api_state" where
  "clear_model st =
     (if tts_model st \<noteq> None
      then st\<lparr>tts_model := None, model_kind_api := None, model_checkpoint := None\<rparr>
      else st)"

definition load_model :: "string \<Rightarrow> load_result \<Rightarrow> api_state \<Rightarrow> exn option \<times> api_state" where
  "load_model checkpoint res st =
     (let st1 = clear_model st in
      case res of
        Load_Raise msg \<Rightarrow> (Some (Raised msg), st1)
      | Load_Return e \<Rightarrow>
          (None,
           st1\<lparr>tts_model := Some e,
               model_kind_api := getattr (eng_model_type e) (Some ''base''),
               model_checkpoint := Some checkpoint\<rparr>))"

section \<open>Concrete engines, requests and states used in the examples\<close>

definition base_engine :: engine where
  "base_engine = \<lparr> eng_id = 0, eng_model_type = Attr_Str ''base'', eng_langs = [], eng_spks = [] \<rparr>"

definition custom_engine :: engine where
  "custom_engine =
     \<lparr> eng_id = 1, eng_model_type = Attr_Str ''custom_voice'',
       eng_langs = [(''English'', ''english'')], eng_spks = [(''Vivian'', ''vivian'')] \<rparr>"

definition design_engine :: engine where
  "design_engine =
     \<lparr> eng_id = 2, eng_model_type = Attr_Str ''voice_design'', eng_langs = [], eng_spks = [] \<rparr>"

definition base_info :: model_info where
  "base_info =
     \<lparr> tts = Some base_engine, ckpt = ''Base'', model_kind = ''base'',
       lang_choices_disp = [], lang_choices_ui = [''Auto''],
       lang_map = [(''Auto'', ''Auto'')], spk_choices_disp = [], spk_map = [] \<rparr>"

definition custom_info :: model_info where
  "custom_info =
     \<lparr> tts = Some custom_engine, ckpt = ''Custom'', model_kind = ''custom_voice'',
       lang_choices_disp = [''English''], lang_choices_ui = [''Auto'', ''English''],
       lang_map = [(''Auto'', ''Auto''), (''English'', ''english'')],
       spk_choices_disp = [''Vivian''], spk_map = [(''Vivian'', ''vivian'')] \<rparr>"

definition design_info :: model_info where
  "design_info =
     \<lparr> tts = Some design_engine, ckpt = ''Design'', model_kind = ''voice_design'',
       lang_choices_disp = [], lang_choices_ui = [''Auto''],
       lang_map = [(''Auto'', ''Auto'')], spk_choices_disp = [], spk_map = [] \<rparr>"

definition default_adv :: adv_params where
  "default_adv = Adv 2048 0.9 50 1.0 1.05 True True 0.9 50 1.0"

definition hello_instruct :: request where
  "hello_instruct = Instruct (Some ''hi'') (Some ''Auto'') (Some ''Vivian'') None default_adv"

definition hello_clone :: request where
  "hello_clone =
     Clone (Audio_Tuple 12000 (Raw_Wav True 7)) (Some ''ref'') False (Some ''hi'') (Some ''Auto'')
       default_adv"

definition ok_result :: engine_result where
  "ok_result = Eng_Return [Wav 9] 12000"

definition api_custom :: api_state where
  "api_custom =
     \<lparr> tts_model = Some custom_engine, model_kind_api = Some ''custom_voice'',
       model_checkpoint = Some ''Custom'', api_engine_log = [] \<rparr>"

definition api_base :: api_state where
  "api_base =
     \<lparr> tts_model = Some base_engine, model_kind_api = Some ''base'',
       model_checkpoint = Some ''Base'', api_engine_log = [] \<rparr>"

definition custom_request :: "int \<Rightarrow> custom_voice_request" where
  "custom_request n =
     \<lparr> req_text = ''hi'', req_language = ''Auto'', req_max_new_tokens = n,
       req_temperature = 0.9, req_top_k = 50, req_top_p = 1.0,
       req_repetition_penalty = 1.05, req_do_sample = True, req_subtalker_dosample = True,
       req_subtalker_temperature = 0.9, req_subtalker_top_k = 50, req_subtalker_top_p = 1.0,
       req_speaker = ''Vivian'', req_instruct = None \<rparr>"

definition clone_form :: "string option \<Rightarrow> bool \<Rightarrow> voice_clone_form" where
  "clone_form ref_text xvec =
     \<lparr> req_text = ''hi'', req_language = ''Auto'', req_max_new_tokens = 2048,
       req_temperature = 0.9, req_top_k = 50, req_top_p = 1.0,
       req_repetition_penalty = 1.05, req_do_sample = True, req_subtalker_dosample = True,
       req_subtalker_temperature = 0.9, req_subtalker_top_k = 50, req_subtalker_top_p = 1.0,
       form_ref_audio = Readable 7, form_ref_text = ref_text, form_x_vector_only = xvec \<rparr>"





definition job_releasing :: sys where
  "job_releasing =
     \<lparr> info = custom_info, active_jobs = 0, reloading = True, lock_owner = Some 1,
       threads = [Rel_Wait ''A'', Fin_Notify (Generation_Complete 12000 (Wav 9))],
       engine_log = [Generate_Custom_Voice 1 ''hi'' ''Auto'' ''vivian'' None
                       (gen_common_kwargs default_adv)] \<rparr>"

definition job_released :: sys where
  "job_released =
     \<lparr> info = custom_info, active_jobs = 0, reloading = True, lock_owner = None,
       threads = [Rel_Wake ''A'', Returned (Generation_Complete 12000 (Wav 9))],
       engine_log = [Generate_Custom_Voice 1 ''hi'' ''Auto'' ''vivian'' None
                       (gen_common_kwargs default_adv)] \<rparr>"





definition failed_reload_notifying :: sys where
  "failed_reload_notifying =
     \<lparr> info = cleared, active_jobs = 0, reloading = False, lock_owner = Some 0,
       threads = [Exc_Notify (Raised ''out of memory''), Idle], engine_log = [] \<rparr>"

definition failed_reload_raised :: sys where
  "failed_reload_raised =
     \<lparr> info = cleared, active_jobs = 0, reloading = False, lock_owner = None,
       threads = [Rel_Raised (Raised ''out of memory''), Idle], engine_log = [] \<rparr>"

definition nothing_loaded_acquired :: sys where
  "nothing_loaded_acquired =
     \<lparr> info = cleared, active_jobs = 1, reloading = False, lock_owner = None,
       threads = [Use_Body hello_instruct (snapshot_of cleared)], engine_log = [] \<rparr>"

definition blank_instruct :: request where
  "blank_instruct = Instruct (Some []) (Some ''Auto'') (Some ''Vivian'') None default_adv"

definition hello_design :: request where
  "hello_design = Design (Some ''hi'') (Some ''Auto'') (Some ''calm'') (Adv 8193 0.9 50 1.0 1.05 True True 0.9 50 1.0)"

definition design_request :: "int \<Rightarrow> voice_design_request" where
  "design_request n =
     \<lparr> req_text = ''hi'', req_language = ''Auto'', req_max_new_tokens = n,
       req_temperature = 0.9, req_top_k = 50, req_top_p = 1.0,
       req_repetition_penalty = 1.05, req_do_sample = True, req_subtalker_dosample = True,
       req_subtalker_temperature = 0.9, req_subtalker_top_k = 50, req_subtalker_top_p = 1.0,
       req_design = ''calm'' \<rparr>"

definition second_reload_called :: sys where
  "second_reload_called =
     \<lparr> info = cleared, active_jobs = 0, reloading = True, lock_owner = None,
       threads = [Rel_Load ''A'', Idle], engine_log = [] \<rparr>"

section \<open>Invariants: proofs\<close>

lemma holds_lock_wake [simp]: "holds_lock (wake p) = holds_lock p"
  by (cases p) simp_all

lemma outstanding_wake [simp]: "outstanding (wake p) = outstanding p"
  by (cases p) simp_all

lemma admitted_wake [simp]: "admitted (wake p) = admitted p"
  by (cases p) simp_all

lemma step_bound: "step t c s = Some s' \<Longrightarrow> t < length (threads s)"
  unfolding step_def by (simp split: if_splits)

lemmas step_simps = goto_def acquire_lock_def release_lock_def notify_all_def nth_list_update Let_def

lemma step_length: "step t c s = Some s' \<Longrightarrow> length (threads s') = length (threads s)"
  unfolding step_def
  by (auto simp: step_simps split: if_splits pc.splits choice.splits load_result.splits option.splits sum.splits)

lemma step_others:
  "step t c s = Some s' \<Longrightarrow> u < length (threads s) \<Longrightarrow> u \<noteq> t \<Longrightarrow>
     threads s' ! u = threads s ! u \<or> threads s' ! u = wake (threads s ! u)"
  unfolding step_def
  by (auto simp: step_simps split: if_splits pc.splits choice.splits load_result.splits option.splits sum.splits)

lemma step_lock:
  "step t c s = Some s' \<Longrightarrow>
     (if holds_lock (threads s ! t)
      then (if holds_lock (threads s' ! t) then lock_owner s' = lock_owner s else lock_owner s' = None)
      else (if holds_lock (threads s' ! t) then lock_owner s = None \<and> lock_owner s' = Some t
            else lock_owner s' = lock_owner s))"
  unfolding step_def
  by (auto simp: step_simps split: if_splits pc.splits choice.splits load_result.splits option.splits sum.splits)

lemma lock_inv_step:
  assumes "lock_inv s" and "step t c s = Some s'"
  shows "lock_inv s'"
proof -
  have tl: "t < length (threads s)" using assms(2) by (rule step_bound)
  have len: "length (threads s') = length (threads s)" using assms(2) by (rule step_length)
  have own: "holds_lock (threads s ! t) \<Longrightarrow> lock_owner s = Some t"
    using assms(1) tl unfolding lock_inv_def by blast
  note lk = step_lock [OF assms(2)]
  show ?thesis
    unfolding lock_inv_def
  proof (intro allI impI)
    fix u assume u: "u < length (threads s')" and h: "holds_lock (threads s' ! u)"
    show "lock_owner s' = Some u"
    proof (cases "u = t")
      case True
      with h lk own show ?thesis by (auto split: if_splits)
    next
      case False
      from u len have ul: "u < length (threads s)" by simp
      from step_others [OF assms(2) ul False] h
      have hu: "holds_lock (threads s ! u)" by auto
      with assms(1) ul have lo: "lock_owner s = Some u" unfolding lock_inv_def by blast
      with own False have nt: "\<not> holds_lock (threads s ! t)" by auto
      with lk lo show ?thesis by (auto split: if_splits)
    qed
  qed
qed


lemma count_update:
  "t < length xs \<Longrightarrow>
     int (length (filter P (xs[t := p]))) =
       int (length (filter P xs)) - (if P (xs ! t) then 1 else 0) + (if P p then 1 else 0)"
proof (induction xs arbitrary: t)
  case Nil
  then show ?case by simp
next
  case (Cons x xs)
  show ?case
  proof (cases t)
    case 0
    then show ?thesis by simp
  next
    case (Suc k)
    with Cons.prems have "k < length xs" by simp
    from Cons.IH [OF this] Suc show ?thesis by (auto split: if_splits)
  qed
qed

lemma outstanding_o_wake [simp]: "outstanding \<circ> wake = outstanding"
  by (rule ext) simp

lemma count_wake: "length (filter outstanding (map wake xs)) = length (filter outstanding xs)"
  by (simp add: filter_map)

lemma step_threads:
  "step t c s = Some s' \<Longrightarrow>
     threads s' = (threads s)[t := threads s' ! t] \<or>
     threads s' = (map wake (threads s))[t := threads s' ! t]"
  unfolding step_def
  by (auto simp: step_simps split: if_splits pc.splits choice.splits load_result.splits option.splits sum.splits)

lemma step_active:
  "step t c s = Some s' \<Longrightarrow>
     active_jobs s' = active_jobs s - (if outstanding (threads s ! t) then 1 else 0)
                        + (if outstanding (threads s' ! t) then 1 else 0)"
  unfolding step_def
  by (auto simp: step_simps split: if_splits pc.splits choice.splits load_result.splits option.splits sum.splits)

lemma count_inv_step:
  assumes "count_inv s" and "step t c s = Some s'"
  shows "count_inv s'"
proof -
  have tl: "t < length (threads s)" using assms(2) by (rule step_bound)
  have "int (length (filter outstanding (threads s'))) =
          int (length (filter outstanding (threads s)))
            - (if outstanding (threads s ! t) then 1 else 0)
            + (if outstanding (threads s' ! t) then 1 else 0)"
  proof -
    from step_threads [OF assms(2)] show ?thesis
    proof
      assume e: "threads s' = (threads s)[t := threads s' ! t]"
      show ?thesis by (subst e) (simp only: count_update [OF tl])
    next
      assume e: "threads s' = (map wake (threads s))[t := threads s' ! t]"
      have tl': "t < length (map wake (threads s))" using tl by simp
      show ?thesis
        by (subst e) (simp add: count_update [OF tl'] count_wake tl)
    qed
  qed
  with assms(1) step_active [OF assms(2)] show ?thesis
    unfolding count_inv_def by simp
qed

text \<open>A thread that does not hold the lock leaves the shared entries alone.\<close>

lemma step_frame:
  "step t c s = Some s' \<Longrightarrow> \<not> holds_lock (threads s ! t) \<Longrightarrow>
     reloading s' = reloading s \<and> active_jobs s' = active_jobs s \<and> info s' = info s"
  unfolding step_def
  by (auto simp: step_simps split: if_splits pc.splits choice.splits load_result.splits option.splits sum.splits)

lemma step_admit:
  "step t c s = Some s' \<Longrightarrow> admitted (threads s' ! t) \<Longrightarrow>
     \<not> reloading s' \<or> (admitted (threads s ! t) \<and> reloading s' = reloading s)"
  unfolding step_def
  by (auto simp: step_simps split: if_splits pc.splits choice.splits load_result.splits option.splits sum.splits)

lemma admitted_holds: "admitted p \<Longrightarrow> holds_lock p"
  by (cases p) simp_all

lemma drained_holds: "drained p \<Longrightarrow> holds_lock p"
  by (cases p) simp_all

lemma drained_wake [simp]: "drained (wake p) = drained p"
  by (cases p) simp_all

lemma admit_inv_step:
  assumes "lock_inv s" and "admit_inv s" and "step t c s = Some s'"
  shows "admit_inv s'"
  unfolding admit_inv_def
proof (intro allI impI)
  fix u assume u: "u < length (threads s')" and a: "admitted (threads s' ! u)"
  have tl: "t < length (threads s)" using assms(3) by (rule step_bound)
  have len: "length (threads s') = length (threads s)" using assms(3) by (rule step_length)
  show "\<not> reloading s'"
  proof (cases "u = t")
    case True
    with step_admit [OF assms(3)] a assms(2) tl show ?thesis
      unfolding admit_inv_def by auto
  next
    case False
    from u len have ul: "u < length (threads s)" by simp
    from step_others [OF assms(3) ul False] a
    have au: "admitted (threads s ! u)" by auto
    with assms(2) ul have nr: "\<not> reloading s" unfolding admit_inv_def by blast
    from au assms(1) ul have "lock_owner s = Some u"
      unfolding lock_inv_def using admitted_holds by blast
    with assms(1) tl False have "\<not> holds_lock (threads s ! t)"
      unfolding lock_inv_def by auto
    from step_frame [OF assms(3) this] nr show ?thesis by simp
  qed
qed

lemma step_drain:
  "step t c s = Some s' \<Longrightarrow> drained (threads s' ! t) \<Longrightarrow> active_jobs s' \<le> 0"
  unfolding step_def
  by (auto simp: step_simps split: if_splits pc.splits choice.splits load_result.splits option.splits sum.splits)

lemma drain_inv_step:
  assumes "lock_inv s" and "drain_inv s" and "step t c s = Some s'"
  shows "drain_inv s'"
  unfolding drain_inv_def
proof (intro allI impI)
  fix u assume u: "u < length (threads s')" and a: "drained (threads s' ! u)"
  have tl: "t < length (threads s)" using assms(3) by (rule step_bound)
  have len: "length (threads s') = length (threads s)" using assms(3) by (rule step_length)
  show "active_jobs s' \<le> 0"
  proof (cases "u = t")
    case True
    with step_drain [OF assms(3)] a show ?thesis by simp
  next
    case False
    from u len have ul: "u < length (threads s)" by simp
    from step_others [OF assms(3) ul False] a
    have au: "drained (threads s ! u)" by auto
    with assms(2) ul have nr: "active_jobs s \<le> 0" unfolding drain_inv_def by blast
    from au assms(1) ul have "lock_owner s = Some u"
      unfolding lock_inv_def using drained_holds by blast
    with assms(1) tl False have "\<not> holds_lock (threads s ! t)"
      unfolding lock_inv_def by auto
    from step_frame [OF assms(3) this] nr show ?thesis by simp
  qed
qed

lemma owner_inv_step:
  assumes "lock_inv s" and "owner_inv s" and "step t c s = Some s'"
  shows "owner_inv s'"
proof (cases "lock_owner s'")
  case None
  then show ?thesis by (simp add: owner_inv_def)
next
  case (Some u)
  have tl: "t < length (threads s)" using assms(3) by (rule step_bound)
  have len: "length (threads s') = length (threads s)" using assms(3) by (rule step_length)
  have own: "holds_lock (threads s ! t) \<Longrightarrow> lock_owner s = Some t"
    using assms(1) tl unfolding lock_inv_def by blast
  note lk = step_lock [OF assms(3)]
  have "u < length (threads s') \<and> holds_lock (threads s' ! u)"
  proof (cases "holds_lock (threads s' ! t)")
    case True
    with lk own Some have "u = t" by (auto split: if_splits)
    with True tl len show ?thesis by simp
  next
    case False
    with lk Some have nh: "\<not> holds_lock (threads s ! t)" and same: "lock_owner s = Some u"
      by (auto split: if_splits)
    from same assms(2) have ul: "u < length (threads s)" and hu: "holds_lock (threads s ! u)"
      unfolding owner_inv_def by simp_all
    from hu nh have "u \<noteq> t" by auto
    from step_others [OF assms(3) ul this] hu have "holds_lock (threads s' ! u)" by auto
    with ul len show ?thesis by simp
  qed
  with Some show ?thesis by (simp add: owner_inv_def)
qed

lemma notifying_holds: "notifying p \<Longrightarrow> holds_lock p"
  by (cases p) simp_all

lemma notifying_wake [simp]: "notifying (wake p) = notifying p"
  by (cases p) simp_all

lemma step_notifying:
  "step t c s = Some s' \<Longrightarrow> notifying (threads s' ! t) \<Longrightarrow> \<not> reloading s'"
  unfolding step_def
  by (auto simp: step_simps split: if_splits pc.splits choice.splits load_result.splits option.splits sum.splits)

lemma notify_inv_step:
  assumes "lock_inv s" and "notify_inv s" and "step t c s = Some s'"
  shows "notify_inv s'"
  unfolding notify_inv_def
proof (intro allI impI)
  fix u assume u: "u < length (threads s')" and a: "notifying (threads s' ! u)"
  have tl: "t < length (threads s)" using assms(3) by (rule step_bound)
  have len: "length (threads s') = length (threads s)" using assms(3) by (rule step_length)
  show "\<not> reloading s'"
  proof (cases "u = t")
    case True
    with step_notifying [OF assms(3)] a show ?thesis by simp
  next
    case False
    from u len have ul: "u < length (threads s)" by simp
    from step_others [OF assms(3) ul False] a
    have au: "notifying (threads s ! u)" by auto
    with assms(2) ul have nr: "\<not> reloading s" unfolding notify_inv_def by blast
    from au assms(1) ul have "lock_owner s = Some u"
      unfolding lock_inv_def using notifying_holds by blast
    with assms(1) tl False have "\<not> holds_lock (threads s ! t)"
      unfolding lock_inv_def by auto
    from step_frame [OF assms(3) this] nr show ?thesis by simp
  qed
qed

lemma invariant_init: "invariant (init_sys n m)"
  by (simp add: invariant_def lock_inv_def count_inv_def admit_inv_def drain_inv_def
      owner_inv_def notify_inv_def init_sys_def)

lemma invariant_step:
  assumes "invariant s" and "step t c s = Some s'"
  shows "invariant s'"
proof -
  from assms(1) have i: "lock_inv s" "count_inv s" "admit_inv s" "drain_inv s" "owner_inv s"
    "notify_inv s"
    unfolding invariant_def by simp_all
  from lock_inv_step [OF i(1) assms(2)] count_inv_step [OF i(2) assms(2)]
    admit_inv_step [OF i(1) i(3) assms(2)] drain_inv_step [OF i(1) i(4) assms(2)]
    owner_inv_step [OF i(1) i(5) assms(2)] notify_inv_step [OF i(1) i(6) assms(2)]
  show ?thesis unfolding invariant_def by simp
qed

lemma invariant_run: "invariant s \<Longrightarrow> run sched s = Some s' \<Longrightarrow> invariant s'"
proof (induction sched arbitrary: s)
  case Nil
  then show ?case by simp
next
  case (Cons a sched)
  obtain t c where a: "a = (t, c)" by (cases a)
  from Cons.prems(2) a obtain s1 where s1: "step t c s = Some s1" and r: "run sched s1 = Some s'"
    by (auto split: option.splits)
  from invariant_step [OF Cons.prems(1) s1] have "invariant s1" .
  from Cons.IH [OF this r] show ?case .
qed

lemma invariant_reachable: "run sched (init_sys n m) = Some s \<Longrightarrow> invariant s"
  using invariant_run invariant_init by blast

text \<open>A thread inside a \<open>with _STATE_COND\<close> block can always take its next step.\<close>

lemma holder_can_step:
  "t < length (threads s) \<Longrightarrow> holds_lock (threads s ! t) \<Longrightarrow> step t c s \<noteq> None"
  unfolding step_def
  by (cases "threads s ! t") (simp_all add: step_simps)

lemma solo_Cons: "solo t (c # cs) = (t, c) # solo t cs"
  by (simp add: solo_def)

lemma solo_Nil: "solo t [] = []"
  by (simp add: solo_def)

lemma run_append: "run (xs @ ys) s = (case run xs s of None \<Rightarrow> None | Some s' \<Rightarrow> run ys s')"
  by (induction xs arbitrary: s) (auto split: option.splits)

lemma body_without_engine: "snap_tts sn = None \<Longrightarrow> body rq sn = Inl Model_Not_Loaded"
  by (cases rq) simp_all


section \<open>The job counter\<close>

lemma count_zero_iff: "(int (length (filter P xs)) = 0) = (filter P xs = [])"
  by simp

lemma step_counter:
  "step t c s = Some s' \<Longrightarrow>
     active_jobs s' =
       (case threads s ! t of
          Use_Incr r \<Rightarrow> active_jobs s + 1
        | Fin_Dec out \<Rightarrow> active_jobs s - 1
        | _ \<Rightarrow> active_jobs s)"
  unfolding step_def
  by (auto simp: step_simps split: if_splits pc.splits choice.splits load_result.splits option.splits sum.splits)

lemma waiting_wake [simp]: "\<not> waiting (wake p)"
  by (cases p) simp_all

lemma filter_waiting_wake: "filter waiting ((map wake xs)[t := Returned out]) = []"
  by (auto simp: filter_empty_conv dest!: set_update_subset_insert [THEN subsetD])

lemma outstanding_count_pos:
  "t < length xs \<Longrightarrow> outstanding (xs ! t) \<Longrightarrow> 1 \<le> int (length (filter outstanding xs))"
proof -
  assume "t < length xs" and "outstanding (xs ! t)"
  then have "filter outstanding xs \<noteq> []"
    using nth_mem [of t xs] by (auto simp: filter_empty_conv)
  then show ?thesis by (cases "filter outstanding xs") simp_all
qed

text \<open>
  C5. In every state that an interleaving of calls can reach, \<open>active_jobs\<close> is the number
  of threads that have incremented it and not yet decremented it; so it is never negative
  and is 0 exactly when no handle is outstanding. A step changes it only by the increment
  of \<open>_use_model\<close> (by one) and by the decrement of its \<open>finally\<close> (by one). Whatever the
  handler's body does with the handle and whatever the engine answers, the body's step
  is there and leads into \<open>finally\<close>; \<open>finally\<close> is held up only while another thread
  has the lock; the decrement and the step after it are always there; that last step
  returns the outcome and, when the counter is at 0 or below, wakes every thread blocked
  on the condition. Whoever has the lock can always take its next step, so the lock is
  not kept for ever.
\<close>

theorem active_jobs_counts_outstanding_handles:
  assumes "run sched (init_sys n m) = Some s" and "t < length (threads s)"
  shows "active_jobs s = int (length (filter outstanding (threads s))) \<and>
         0 \<le> active_jobs s \<and>
         ((active_jobs s = 0) = (filter outstanding (threads s) = [])) \<and>
         (\<forall>c' s'. step t c' s = Some s' \<longrightarrow>
            active_jobs s' =
              (case threads s ! t of
                 Use_Incr r \<Rightarrow> active_jobs s + 1
               | Fin_Dec out \<Rightarrow> active_jobs s - 1
               | _ \<Rightarrow> active_jobs s)) \<and>
         (case threads s ! t of
            Use_Body r sn \<Rightarrow>
              step t (Engine res) s =
                Some (case body r sn of
                        Inl out \<Rightarrow> goto t (Fin_Lock out) s
                      | Inr call \<Rightarrow>
                          goto t (Fin_Lock (finish res))
                            (s\<lparr>engine_log := engine_log s @ [call]\<rparr>))
          | Fin_Lock out \<Rightarrow>
              step t c s =
                (if lock_owner s = None
                 then Some (goto t (Fin_Dec out) (s\<lparr>lock_owner := Some t\<rparr>)) else None)
          | Fin_Dec out \<Rightarrow>
              lock_owner s = Some t \<and> 1 \<le> active_jobs s \<and>
              step t c s =
                Some (goto t (Fin_Notify out) (s\<lparr>active_jobs := active_jobs s - 1\<rparr>))
          | Fin_Notify out \<Rightarrow>
              lock_owner s = Some t \<and>
              step t c s =
                Some (goto t (Returned out)
                        (release_lock (if active_jobs s \<le> 0 then notify_all s else s))) \<and>
              (if active_jobs s = 0
               then filter waiting
                      (threads (goto t (Returned out) (release_lock (notify_all s)))) = []
               else True)
          | _ \<Rightarrow> True) \<and>
         (case lock_owner s of
            None \<Rightarrow> True
          | Some u \<Rightarrow> u < length (threads s) \<and> holds_lock (threads s ! u) \<and> step u c s \<noteq> None)"
proof -
  from invariant_reachable [OF assms(1)] have inv: "invariant s" .
  then have cnt: "count_inv s" and lk: "lock_inv s" and ow: "owner_inv s"
    unfolding invariant_def by simp_all
  have eq: "active_jobs s = int (length (filter outstanding (threads s)))"
    using cnt unfolding count_inv_def .
  have nonneg: "0 \<le> active_jobs s" using eq by simp
  have zero: "(active_jobs s = 0) = (filter outstanding (threads s) = [])"
    using eq count_zero_iff [of outstanding "threads s"] by simp
  have chg: "\<forall>c' s'. step t c' s = Some s' \<longrightarrow>
            active_jobs s' =
              (case threads s ! t of
                 Use_Incr r \<Rightarrow> active_jobs s + 1
               | Fin_Dec out \<Rightarrow> active_jobs s - 1
               | _ \<Rightarrow> active_jobs s)"
    using step_counter by blast
  have own: "holds_lock (threads s ! t) \<Longrightarrow> lock_owner s = Some t"
    using lk assms(2) unfolding lock_inv_def by blast
  have pos: "outstanding (threads s ! t) \<Longrightarrow> 1 \<le> active_jobs s"
    using outstanding_count_pos [OF assms(2)] eq by simp
  have exits: "case threads s ! t of
            Use_Body r sn \<Rightarrow>
              step t (Engine res) s =
                Some (case body r sn of
                        Inl out \<Rightarrow> goto t (Fin_Lock out) s
                      | Inr call \<Rightarrow>
                          goto t (Fin_Lock (finish res))
                            (s\<lparr>engine_log := engine_log s @ [call]\<rparr>))
          | Fin_Lock out \<Rightarrow>
              step t c s =
                (if lock_owner s = None
                 then Some (goto t (Fin_Dec out) (s\<lparr>lock_owner := Some t\<rparr>)) else None)
          | Fin_Dec out \<Rightarrow>
              lock_owner s = Some t \<and> 1 \<le> active_jobs s \<and>
              step t c s =
                Some (goto t (Fin_Notify out) (s\<lparr>active_jobs := active_jobs s - 1\<rparr>))
          | Fin_Notify out \<Rightarrow>
              lock_owner s = Some t \<and>
              step t c s =
                Some (goto t (Returned out)
                        (release_lock (if active_jobs s \<le> 0 then notify_all s else s))) \<and>
              (if active_jobs s = 0
               then filter waiting
                      (threads (goto t (Returned out) (release_lock (notify_all s)))) = []
               else True)
          | _ \<Rightarrow> True"
  proof (cases "threads s ! t")
    case (Use_Body r sn)
    with assms(2) show ?thesis
      unfolding step_def by (simp split: sum.splits)
  next
    case (Fin_Lock out)
    with assms(2) show ?thesis
      unfolding step_def by (simp add: acquire_lock_def)
  next
    case (Fin_Dec out)
    with assms(2) own pos show ?thesis
      unfolding step_def by simp
  next
    case (Fin_Notify out)
    with assms(2) own show ?thesis
      unfolding step_def
      by (simp add: goto_def release_lock_def notify_all_def filter_waiting_wake)
  qed simp_all
  have holder: "case lock_owner s of
            None \<Rightarrow> True
          | Some u \<Rightarrow> u < length (threads s) \<and> holds_lock (threads s ! u) \<and> step u c s \<noteq> None"
  proof (cases "lock_owner s")
    case None
    then show ?thesis by simp
  next
    case (Some u)
    with ow have "u < length (threads s)" "holds_lock (threads s ! u)"
      unfolding owner_inv_def by simp_all
    with holder_can_step [of u s c] Some show ?thesis by simp
  qed
  from eq nonneg zero chg exits holder show ?thesis by blast
qed

theorem active_jobs_counts_outstanding_handles_witness:
  "run (solo 1 [Call hello_instruct, Tau, Tau, Tau, Tau] @
        solo 0 [Call_Reload (Some ''A''), Tau, Tau, Tau] @
        solo 1 [Engine ok_result, Tau, Tau])
       (init_sys 2 custom_info) = Some job_releasing \<and>
   1 < length (threads job_releasing) \<and>
   threads job_releasing ! 1 = Fin_Notify (Generation_Complete 12000 (Wav 9)) \<and>
   threads job_releasing ! 0 = Rel_Wait ''A'' \<and>
   active_jobs job_releasing = 0 \<and>
   filter outstanding (threads job_releasing) = [] \<and>
   step 1 Tau job_releasing = Some job_released \<and>
   threads job_released = [Rel_Wake ''A'', Returned (Generation_Complete 12000 (Wav 9))] \<and>
   filter waiting (threads job_released) = [] \<and>
   lock_owner job_released = None"
proof -
  have r: "run (solo 1 [Call hello_instruct, Tau, Tau, Tau, Tau] @
        solo 0 [Call_Reload (Some ''A''), Tau, Tau, Tau] @
        solo 1 [Engine ok_result, Tau, Tau])
       (init_sys 2 custom_info) = Some job_releasing"
    by code_simp
  have l: "1 < length (threads job_releasing)"
    by (simp add: job_releasing_def)
  have g: "goto 1 (Returned (Generation_Complete 12000 (Wav 9)))
             (release_lock (notify_all job_releasing)) = job_released"
    by code_simp
  from active_jobs_counts_outstanding_handles [OF r l, where c = Tau and res = ok_result] r l g show ?thesis
    by (simp add: job_releasing_def job_released_def)
qed

section \<open>Acquisition and the reloading flag\<close>






section \<open>A reload without a checkpoint\<close>

lemma strip_Nil: "strip [] = []"
  by (simp add: strip_def)

lemma strip_spaces: "list_all is_space x \<Longrightarrow> strip x = []"
  by (auto simp: strip_def list_all_iff dest: set_dropWhileD)

text \<open>
  C10. \<open>_reload_model\<close> called with no checkpoint, an empty one or one of white space only
  raises \<open>ValueError\<close> at once: the state after the call is the state before it, except
  that the calling thread has the exception in hand. \<open>reloading\<close>, \<open>active_jobs\<close>, the
  lock and the entries of the current engine are as they were.
\<close>

theorem reload_without_checkpoint_changes_nothing:
  assumes "t < length (threads s)" and "threads s ! t = Idle"
    and "case ck of None \<Rightarrow> True | Some x \<Rightarrow> list_all is_space x"
  shows "step t (Call_Reload ck) s =
           Some (s\<lparr>threads := (threads s)[t := Rel_Raised (ValueError ''Checkpoint is required.'')]\<rparr>)"
proof -
  have "strip (or_empty ck) = []"
    using assms(3) by (cases ck) (simp_all add: or_empty_def strip_spaces strip_Nil)
  with assms(1,2) show ?thesis
    unfolding step_def by (simp add: goto_def)
qed

theorem reload_without_checkpoint_changes_nothing_witness:
  "(0::nat) < length (threads (init_sys 1 base_info)) \<and>
   threads (init_sys 1 base_info) ! 0 = Idle \<and>
   list_all is_space ''  '' \<and>
   step 0 (Call_Reload (Some ''  '')) (init_sys 1 base_info) =
     Some \<lparr> info = base_info, active_jobs = 0, reloading = False, lock_owner = None,
            threads = [Rel_Raised (ValueError ''Checkpoint is required.'')], engine_log = [] \<rparr>"
proof -
  have a: "(0::nat) < length (threads (init_sys 1 base_info))" by (simp add: init_sys_def)
  have b: "threads (init_sys 1 base_info) ! 0 = Idle" by (simp add: init_sys_def)
  have c: "case Some ''  '' of None \<Rightarrow> True | Some x \<Rightarrow> list_all is_space x"
    by (simp add: is_space_def)
  from reload_without_checkpoint_changes_nothing [OF a b c] a b c show ?thesis
    by (simp add: init_sys_def)
qed


section \<open>Draining before the swap\<close>

lemma flagged_wake [simp]: "flagged (wake p) = flagged p"
  by (cases p) simp_all

lemma swapping_wake [simp]: "swapping (wake p) = swapping p"
  by (cases p) simp_all

lemma emptied_wake [simp]: "emptied (wake p) = emptied p"
  by (cases p) simp_all

lemma swapping_flagged: "swapping p \<Longrightarrow> flagged p"
  by (cases p) simp_all

lemma flagged_in_reload: "flagged p \<Longrightarrow> in_reload p"
  by (cases p) simp_all

lemma emptied_in_reload: "emptied p \<Longrightarrow> in_reload p"
  by (cases p) simp_all

lemma filter_nonempty: "k < length xs \<Longrightarrow> P (xs ! k) \<Longrightarrow> 1 \<le> length (filter P xs)"
proof -
  assume "k < length xs" and "P (xs ! k)"
  then have "filter P xs \<noteq> []"
    using nth_mem [of k xs] by (auto simp: filter_empty_conv)
  then show ?thesis by (cases "filter P xs") simp_all
qed

lemma at_most_one:
  "length (filter P xs) \<le> 1 \<Longrightarrow> i < length xs \<Longrightarrow> j < length xs \<Longrightarrow>
     P (xs ! i) \<Longrightarrow> P (xs ! j) \<Longrightarrow> i = j"
proof (induction xs arbitrary: i j)
  case Nil
  then show ?case by simp
next
  case (Cons x xs)
  show ?case
  proof (cases i)
    case 0
    show ?thesis
    proof (cases j)
      case 0
      with \<open>i = 0\<close> show ?thesis by simp
    next
      case (Suc k)
      with Cons.prems have "k < length xs" "P (xs ! k)" by simp_all
      from filter_nonempty [where P = P, OF this] Cons.prems(1,4) \<open>i = 0\<close> show ?thesis by simp
    qed
  next
    case (Suc h)
    with Cons.prems have h: "h < length xs" "P (xs ! h)" by simp_all
    show ?thesis
    proof (cases j)
      case 0
      with filter_nonempty [where P = P, OF h] Cons.prems(1,5) show ?thesis by simp
    next
      case (Suc k)
      with Cons.prems have k: "k < length xs" "P (xs ! k)" by simp_all
      from Cons.prems(1) have "length (filter P xs) \<le> 1" by (simp split: if_splits)
      from Cons.IH [OF this h(1) k(1) h(2) k(2)] Suc \<open>i = Suc h\<close> show ?thesis by simp
    qed
  qed
qed

text \<open>Only a thread inside \<open>_reload_model\<close> changes the flag or the entries.\<close>

lemma step_outsider:
  "step t c s = Some s' \<Longrightarrow> \<not> in_reload (threads s ! t) \<Longrightarrow>
     reloading s' = reloading s \<and> info s' = info s"
  unfolding step_def
  by (auto simp: step_simps split: if_splits pc.splits choice.splits load_result.splits option.splits sum.splits)

lemma step_flagged:
  "step t c s = Some s' \<Longrightarrow> flagged (threads s' ! t) \<Longrightarrow>
     reloading s' \<or> (flagged (threads s ! t) \<and> reloading s' = reloading s)"
  unfolding step_def
  by (auto simp: step_simps split: if_splits pc.splits choice.splits load_result.splits option.splits sum.splits)

lemma step_swapping:
  "step t c s = Some s' \<Longrightarrow> swapping (threads s' ! t) \<Longrightarrow>
     active_jobs s' \<le> 0 \<or> (swapping (threads s ! t) \<and> active_jobs s' = active_jobs s)"
  unfolding step_def
  by (auto simp: step_simps split: if_splits pc.splits choice.splits load_result.splits option.splits sum.splits)

lemma step_emptied:
  "step t c s = Some s' \<Longrightarrow> emptied (threads s' ! t) \<Longrightarrow>
     info s' = cleared \<or> (emptied (threads s ! t) \<and> info s' = info s)"
  unfolding step_def
  by (auto simp: step_simps split: if_splits pc.splits choice.splits load_result.splits option.splits sum.splits)

lemma step_raise_counter:
  "step t c s = Some s' \<Longrightarrow> active_jobs s < active_jobs s' \<Longrightarrow> admitted (threads s ! t)"
  unfolding step_def
  by (auto simp: step_simps split: if_splits pc.splits choice.splits load_result.splits option.splits sum.splits)


lemma serial_inv_step:
  assumes inv: "invariant s" and ser: "serial_inv s" and one: "one_reload s"
    and st: "step t c s = Some s'"
  shows "serial_inv s'"
  unfolding serial_inv_def
proof (intro allI impI)
  fix r assume "r < length (threads s')"
  have tl: "t < length (threads s)" using st by (rule step_bound)
  have len: "length (threads s') = length (threads s)" using st by (rule step_length)
  from \<open>r < length (threads s')\<close> len have rl: "r < length (threads s)" by simp
  have adm: "admit_inv s" using inv unfolding invariant_def by simp
  from ser rl have fl: "flagged (threads s ! r) \<Longrightarrow> reloading s"
    and sw: "swapping (threads s ! r) \<Longrightarrow> active_jobs s \<le> 0"
    and em: "emptied (threads s ! r) \<Longrightarrow> info s = cleared"
    unfolding serial_inv_def by blast+
  show "(flagged (threads s' ! r) \<longrightarrow> reloading s') \<and>
        (swapping (threads s' ! r) \<longrightarrow> active_jobs s' \<le> 0) \<and>
        (emptied (threads s' ! r) \<longrightarrow> info s' = cleared)"
  proof (cases "t = r")
    case True
    from step_flagged [OF st] fl True have a: "flagged (threads s' ! r) \<longrightarrow> reloading s'"
      by auto
    from step_swapping [OF st] sw True
    have b: "swapping (threads s' ! r) \<longrightarrow> active_jobs s' \<le> 0"
      by auto
    from step_emptied [OF st] em True
    have c: "emptied (threads s' ! r) \<longrightarrow> info s' = cleared"
      by auto
    from a b c show ?thesis by blast
  next
    case False
    from step_others [OF st rl] False
    have same: "flagged (threads s' ! r) = flagged (threads s ! r)"
      "swapping (threads s' ! r) = swapping (threads s ! r)"
      "emptied (threads s' ! r) = emptied (threads s ! r)"
      by auto
    have out: "in_reload (threads s ! r) \<Longrightarrow> \<not> in_reload (threads s ! t)"
      using at_most_one [of in_reload "threads s" r t] one rl tl False
      unfolding one_reload_def by blast
    have a: "flagged (threads s' ! r) \<longrightarrow> reloading s'"
    proof
      assume "flagged (threads s' ! r)"
      with same have f: "flagged (threads s ! r)" by simp
      from step_outsider [OF st out [OF flagged_in_reload [OF f]]] fl [OF f]
      show "reloading s'" by simp
    qed
    have c: "emptied (threads s' ! r) \<longrightarrow> info s' = cleared"
    proof
      assume "emptied (threads s' ! r)"
      with same have e: "emptied (threads s ! r)" by simp
      from step_outsider [OF st out [OF emptied_in_reload [OF e]]] em [OF e]
      show "info s' = cleared" by simp
    qed
    have b: "swapping (threads s' ! r) \<longrightarrow> active_jobs s' \<le> 0"
    proof
      assume "swapping (threads s' ! r)"
      with same have w: "swapping (threads s ! r)" by simp
      from fl [OF swapping_flagged [OF w]] have re: "reloading s" .
      from sw [OF w] have le: "active_jobs s \<le> 0" .
      show "active_jobs s' \<le> 0"
      proof (rule ccontr)
        assume "\<not> active_jobs s' \<le> 0"
        with le have "active_jobs s < active_jobs s'" by simp
        from step_raise_counter [OF st this] have "admitted (threads s ! t)" .
        with adm tl re show False unfolding admit_inv_def by blast
      qed
    qed
    from a b c show ?thesis by blast
  qed
qed

lemma serial_inv_run:
  "invariant s \<Longrightarrow> serial_inv s \<Longrightarrow> never_overlap sched s \<Longrightarrow> run sched s = Some s' \<Longrightarrow>
     serial_inv s'"
proof (induction sched arbitrary: s)
  case Nil
  then show ?case by simp
next
  case (Cons a sched)
  obtain t c where a: "a = (t, c)" by (cases a)
  from Cons.prems(4) a obtain s1 where s1: "step t c s = Some s1" and r: "run sched s1 = Some s'"
    by (auto split: option.splits)
  from Cons.prems(3) a s1 have one: "one_reload s" and rest: "never_overlap sched s1"
    by simp_all
  from invariant_step [OF Cons.prems(1) s1] have i1: "invariant s1" .
  from serial_inv_step [OF Cons.prems(1,2) one s1] have "serial_inv s1" .
  from Cons.IH [OF i1 this rest r] show ?case .
qed

lemma serial_inv_init: "serial_inv (init_sys n m)"
  by (simp add: serial_inv_def init_sys_def)

lemma serial_reachable:
  "run sched (init_sys n m) = Some s \<Longrightarrow> never_overlap sched (init_sys n m) \<Longrightarrow> serial_inv s"
  using serial_inv_run [OF invariant_init serial_inv_init] by blast




section \<open>A reload whose construction fails, and a reload during a reload\<close>

text \<open>The REST wrapper drops its engine before it builds the new one, too.\<close>

lemma load_model_failure_leaves_no_engine:
  "load_model checkpoint (Load_Raise msg) st = (Some (Raised msg), clear_model st) \<and>
   tts_model (clear_model st) = None"
  by (simp add: load_model_def clear_model_def)

lemma filter_waiting_woken:
  "\<not> waiting p \<Longrightarrow> filter waiting ((map wake xs)[t := p]) = []"
  by (auto simp: filter_empty_conv dest!: set_update_subset_insert [THEN subsetD])

text \<open>
  C3, as the code has it. In every state that an interleaving of calls can reach, a reload
  whose construction raises (or whose engine has an unknown type) goes into its
  \<open>except\<close> clause; there it takes the lock, sets \<open>reloading\<close> to false, wakes every
  thread blocked on the condition and lets the exception go on to the caller. None of
  these steps touches the entries of the current engine, which this reload had cleared
  before it tried to build the new one. So when the reloads of the schedule have been
  made one after the other, never two under way at once, the entries are cleared all the
  way from the construction to the raise, \<open>reloading\<close> stays true until the handler
  resets it, and with the entries cleared the body of any handler finds no engine and
  returns \<open>Model not loaded\<close>.
\<close>

theorem failed_reload_leaves_no_engine:
  assumes "run sched (init_sys n m) = Some s" and "r < length (threads s)"
  shows "case threads s ! r of
           Rel_Load ck \<Rightarrow>
             step r (Load (Load_Raise msg)) s = Some (goto r (Exc_Lock (Raised msg)) s) \<and>
             step r (Load (Load_Return e)) s =
               Some (case build_model_state e ck of
                       Inl x \<Rightarrow> goto r (Exc_Lock x) s
                     | Inr st \<Rightarrow> goto r (Pub_Lock st) s) \<and>
             (if never_overlap sched (init_sys n m) then info s = cleared \<and> reloading s
              else True)
         | Exc_Lock x \<Rightarrow>
             step r c s =
               (if lock_owner s = None
                then Some (goto r (Exc_Flag x) (s\<lparr>lock_owner := Some r\<rparr>)) else None) \<and>
             (if never_overlap sched (init_sys n m) then info s = cleared \<and> reloading s
              else True)
         | Exc_Flag x \<Rightarrow>
             lock_owner s = Some r \<and>
             step r c s = Some (goto r (Exc_Notify x) (s\<lparr>reloading := False\<rparr>)) \<and>
             (if never_overlap sched (init_sys n m) then info s = cleared else True)
         | Exc_Notify x \<Rightarrow>
             lock_owner s = Some r \<and> \<not> reloading s \<and>
             step r c s = Some (goto r (Rel_Raised x) (release_lock (notify_all s))) \<and>
             filter waiting (threads (goto r (Rel_Raised x) (release_lock (notify_all s)))) = [] \<and>
             info (goto r (Rel_Raised x) (release_lock (notify_all s))) = info s \<and>
             (if never_overlap sched (init_sys n m)
              then info s = cleared \<and> body rq (snapshot_of (info s)) = Inl Model_Not_Loaded
              else True)
         | _ \<Rightarrow> True"
proof -
  from invariant_reachable [OF assms(1)] have inv: "invariant s" .
  have own: "holds_lock (threads s ! r) \<Longrightarrow> lock_owner s = Some r"
    using inv assms(2) unfolding invariant_def lock_inv_def by blast
  have nf: "notifying (threads s ! r) \<Longrightarrow> \<not> reloading s"
    using inv assms(2) unfolding invariant_def notify_inv_def by blast
  have ser: "never_overlap sched (init_sys n m) \<Longrightarrow>
               (flagged (threads s ! r) \<longrightarrow> reloading s) \<and>
               (emptied (threads s ! r) \<longrightarrow> info s = cleared)"
    using serial_reachable [OF assms(1)] assms(2) unfolding serial_inv_def by blast
  have none: "info s = cleared \<Longrightarrow> body rq (snapshot_of (info s)) = Inl Model_Not_Loaded"
    by (rule body_without_engine) (simp add: snapshot_of_def cleared_def)
  show ?thesis
  proof (cases "threads s ! r")
    case (Rel_Load ck)
    with assms(2) ser show ?thesis
      unfolding step_def by (simp split: sum.splits)
  next
    case (Exc_Lock x)
    with assms(2) ser show ?thesis
      unfolding step_def by (simp add: acquire_lock_def)
  next
    case (Exc_Flag x)
    with assms(2) ser own show ?thesis
      unfolding step_def by simp
  next
    case (Exc_Notify x)
    with assms(2) ser own nf none show ?thesis
      unfolding step_def
      by (simp add: goto_def release_lock_def notify_all_def filter_waiting_woken)
  qed simp_all
qed

theorem failed_reload_leaves_no_engine_witness:
  "run (reload_begin 0 (Some ''B'') @ solo 0 [Load (Load_Raise ''out of memory''), Tau, Tau])
       (init_sys 2 base_info) = Some failed_reload_notifying \<and>
   never_overlap
     (reload_begin 0 (Some ''B'') @ solo 0 [Load (Load_Raise ''out of memory''), Tau, Tau])
     (init_sys 2 base_info) \<and>
   0 < length (threads failed_reload_notifying) \<and>
   threads failed_reload_notifying ! 0 = Exc_Notify (Raised ''out of memory'') \<and>
   lock_owner failed_reload_notifying = Some 0 \<and>
   \<not> reloading failed_reload_notifying \<and>
   info failed_reload_notifying = cleared \<and>
   step 0 Tau failed_reload_notifying = Some failed_reload_raised \<and>
   filter waiting (threads failed_reload_raised) = [] \<and>
   info failed_reload_raised = cleared \<and>
   body hello_clone (snapshot_of cleared) = Inl Model_Not_Loaded"
proof -
  have r: "run (reload_begin 0 (Some ''B'') @ solo 0 [Load (Load_Raise ''out of memory''), Tau, Tau])
       (init_sys 2 base_info) = Some failed_reload_notifying"
    by code_simp
  have n: "never_overlap
     (reload_begin 0 (Some ''B'') @ solo 0 [Load (Load_Raise ''out of memory''), Tau, Tau])
     (init_sys 2 base_info)"
    by code_simp
  have l: "0 < length (threads failed_reload_notifying)"
    and p: "threads failed_reload_notifying ! 0 = Exc_Notify (Raised ''out of memory'')"
    and i: "info failed_reload_notifying = cleared"
    by (simp_all add: failed_reload_notifying_def)
  have g: "goto 0 (Rel_Raised (Raised ''out of memory''))
             (release_lock (notify_all failed_reload_notifying)) = failed_reload_raised"
    by code_simp
  from failed_reload_leaves_no_engine [OF r l, where c = Tau and rq = hello_clone] r n l p i g
  show ?thesis
    by simp
qed

text \<open>
  C3, as the claim states it, fails: the Base engine is current, a reload to another
  checkpoint fails to construct, and afterwards no engine is current; the clone request
  that the Base engine would have served returns \<open>Model not loaded\<close>.
\<close>

theorem failed_reload_drops_current_engine:
  "tts (info (init_sys 2 base_info)) = Some base_engine \<and>
   run (reload_begin 0 (Some ''B'') @ reload_fails 0 ''out of memory'' @
        call_alone 1 hello_clone ok_result)
       (init_sys 2 base_info) =
     Some \<lparr> info = cleared, active_jobs = 0, reloading = False, lock_owner = None,
            threads = [Rel_Raised (Raised ''out of memory''), Returned Model_Not_Loaded],
            engine_log = [] \<rparr> \<and>
   tts cleared = None"
  by code_simp

text \<open>
  C4, as the code has it. \<open>_reload_model\<close> never tests \<open>reloading\<close>: called while another
  reload is under way (\<open>reloading\<close> already true) it takes the lock, sets the flag again
  and reaches the loop on \<open>active_jobs\<close>, where it waits if a job is active and otherwise
  goes on to clear the entries. It raises nothing.
\<close>

theorem reload_during_reload_proceeds:
  assumes "t < length (threads s)" and "threads s ! t = Idle" and "lock_owner s = None"
    and "reloading s" and "strip (or_empty ck) \<noteq> []"
  shows "run (solo t [Call_Reload ck, Tau, Tau, Tau]) s =
           Some (if 0 < active_jobs s
                 then s\<lparr>reloading := True, lock_owner := None,
                        threads := (threads s)[t := Rel_Wait (strip (or_empty ck))]\<rparr>
                 else s\<lparr>reloading := True, lock_owner := Some t,
                        threads := (threads s)[t := Rel_Clear (strip (or_empty ck))]\<rparr>)"
  using assms
  by (simp add: solo_Cons solo_Nil step_def step_simps)

theorem reload_during_reload_proceeds_witness:
  "run (reload_begin 0 (Some ''A'')) (init_sys 2 base_info) = Some second_reload_called \<and>
   1 < length (threads second_reload_called) \<and>
   threads second_reload_called ! 1 = Idle \<and>
   lock_owner second_reload_called = None \<and>
   reloading second_reload_called \<and>
   strip (or_empty (Some ''B'')) \<noteq> [] \<and>
   run (solo 1 [Call_Reload (Some ''B''), Tau, Tau, Tau]) second_reload_called =
     Some \<lparr> info = cleared, active_jobs = 0, reloading = True, lock_owner = Some 1,
            threads = [Rel_Load ''A'', Rel_Clear ''B''], engine_log = [] \<rparr>"
proof -
  have r: "run (reload_begin 0 (Some ''A'')) (init_sys 2 base_info) = Some second_reload_called"
    by code_simp
  have a: "1 < length (threads second_reload_called)"
    and b: "threads second_reload_called ! 1 = Idle"
    and c: "lock_owner second_reload_called = None"
    and d: "reloading second_reload_called"
    by (simp_all add: second_reload_called_def)
  have e: "strip (or_empty (Some ''B'')) \<noteq> []" by code_simp
  have f: "strip (or_empty (Some ''B'')) = ''B''" by code_simp
  from reload_during_reload_proceeds [OF a b c d e] r a b c d e show ?thesis
    by (simp add: f second_reload_called_def)
qed

text \<open>
  C4, as the claim states it, fails: thread 0 is inside its reload, past the clearing and
  before the construction, when thread 1 calls \<open>_reload_model\<close>. Thread 1 is not refused;
  both reloads are under way at once.
\<close>

theorem two_reloads_under_way:
  "run (reload_begin 0 (Some ''A'')) (init_sys 2 base_info) = Some second_reload_called \<and>
   reloading second_reload_called \<and>
   run (reload_begin 1 (Some ''B'')) second_reload_called =
     Some \<lparr> info = cleared, active_jobs = 0, reloading = True, lock_owner = None,
            threads = [Rel_Load ''A'', Rel_Load ''B''], engine_log = [] \<rparr>"
  by code_simp


section \<open>Handler calls that nobody interferes with\<close>

lemma call_alone_body_run:
  assumes "t < length (threads s)" and "threads s ! t = Idle" and "lock_owner s = None"
    and "\<not> reloading s" and "pre_checks rq = None"
    and "body rq (snapshot_of (info s)) = Inl out"
  shows "run (solo t [Call rq, Tau, Tau, Tau, Tau, Engine res]) s =
           Some (s\<lparr>active_jobs := active_jobs s + 1, lock_owner := None,
                  threads := (threads s)[t := Fin_Lock out]\<rparr>)"
  using assms
  by (simp add: solo_Cons solo_Nil step_def step_simps)

lemma call_alone_run:
  assumes "t < length (threads s)" and "threads s ! t = Idle" and "lock_owner s = None"
    and "\<not> reloading s" and "pre_checks rq = None"
    and "body rq (snapshot_of (info s)) = Inl out"
  shows "run (call_alone t rq res) s =
           Some (s\<lparr>lock_owner := None,
                  threads := (if active_jobs s \<le> 0 then map wake (threads s) else threads s)
                               [t := Returned out]\<rparr>)"
  using assms
  by (simp add: call_alone_def solo_Cons solo_Nil step_def step_simps map_update)

lemma call_alone_engine_run:
  assumes "t < length (threads s)" and "threads s ! t = Idle" and "lock_owner s = None"
    and "\<not> reloading s" and "pre_checks rq = None"
    and "body rq (snapshot_of (info s)) = Inr call"
  shows "run (call_alone t rq res) s =
           Some (s\<lparr>lock_owner := None, engine_log := engine_log s @ [call],
                  threads := (if active_jobs s \<le> 0 then map wake (threads s) else threads s)
                               [t := Returned (finish res)]\<rparr>)"
  using assms
  by (simp add: call_alone_def solo_Cons solo_Nil step_def step_simps map_update)

lemma body_unsupported:
  "snap_tts sn = Some e \<Longrightarrow> snap_model_kind sn \<noteq> wanted_kind rq \<Longrightarrow>
     body rq sn = Inl (unsupported rq)"
  by (cases rq) simp_all

text \<open>
  C6, as the code has it. A handler call that passes the input checks made before the
  acquisition, and finds an engine loaded whose \<open>model_kind\<close> is not the one the handler
  wants, returns the handler's \<open>does not support\<close> message. The engine is not called:
  \<open>engine_log\<close> is as before. After the body the counter is still raised by one and the
  result is not yet returned; the three steps of \<open>finally\<close> then bring \<open>active_jobs\<close>
  back to its value before the call, and only then is the outcome returned.
\<close>

theorem unsupported_kind_is_refused_and_released:
  assumes "t < length (threads s)" and "threads s ! t = Idle" and "lock_owner s = None"
    and "\<not> reloading s" and "pre_checks rq = None"
    and "tts (info s) = Some e" and "model_kind (info s) \<noteq> wanted_kind rq"
  shows "run (solo t [Call rq, Tau, Tau, Tau, Tau, Engine res]) s =
           Some (s\<lparr>active_jobs := active_jobs s + 1, lock_owner := None,
                  threads := (threads s)[t := Fin_Lock (unsupported rq)]\<rparr>) \<and>
         run (call_alone t rq res) s =
           Some (s\<lparr>lock_owner := None,
                  threads := (if active_jobs s \<le> 0 then map wake (threads s) else threads s)
                               [t := Returned (unsupported rq)]\<rparr>)"
proof -
  have b: "body rq (snapshot_of (info s)) = Inl (unsupported rq)"
    by (rule body_unsupported [where e = e]) (simp_all add: snapshot_of_def assms(6,7))
  from call_alone_body_run [OF assms(1-5) b] call_alone_run [OF assms(1-5) b]
  show ?thesis by blast
qed

theorem unsupported_kind_is_refused_and_released_witness:
  "(0::nat) < length (threads (init_sys 1 base_info)) \<and>
   threads (init_sys 1 base_info) ! 0 = Idle \<and>
   lock_owner (init_sys 1 base_info) = None \<and>
   \<not> reloading (init_sys 1 base_info) \<and>
   pre_checks hello_instruct = None \<and>
   tts (info (init_sys 1 base_info)) = Some base_engine \<and>
   model_kind (info (init_sys 1 base_info)) \<noteq> wanted_kind hello_instruct \<and>
   run (solo 0 [Call hello_instruct, Tau, Tau, Tau, Tau, Engine ok_result]) (init_sys 1 base_info) =
     Some \<lparr> info = base_info, active_jobs = 1, reloading = False, lock_owner = None,
            threads = [Fin_Lock (Not_Supported ''CustomVoice'')], engine_log = [] \<rparr> \<and>
   run (call_alone 0 hello_instruct ok_result) (init_sys 1 base_info) =
     Some \<lparr> info = base_info, active_jobs = 0, reloading = False, lock_owner = None,
            threads = [Returned (Not_Supported ''CustomVoice'')], engine_log = [] \<rparr>"
proof -
  have a: "(0::nat) < length (threads (init_sys 1 base_info))" by (simp add: init_sys_def)
  have b: "threads (init_sys 1 base_info) ! 0 = Idle" by (simp add: init_sys_def)
  have c: "lock_owner (init_sys 1 base_info) = None" by (simp add: init_sys_def)
  have d: "\<not> reloading (init_sys 1 base_info)" by (simp add: init_sys_def)
  have e: "pre_checks hello_instruct = None" by code_simp
  have f: "tts (info (init_sys 1 base_info)) = Some base_engine"
    by (simp add: init_sys_def base_info_def)
  have g: "model_kind (info (init_sys 1 base_info)) \<noteq> wanted_kind hello_instruct"
    by (simp add: init_sys_def base_info_def hello_instruct_def)
  from unsupported_kind_is_refused_and_released [OF a b c d e f g, of ok_result] a b c d e f g
  show ?thesis
    by (simp add: init_sys_def hello_instruct_def)
qed

text \<open>
  C6, as the claim states it, fails: the Base engine is loaded, the request is for
  CustomVoice, which Base does not support, and its text is empty. The handler returns
  \<open>Text is required\<close> before it acquires anything, not the \<open>does not support\<close> message.
\<close>

theorem empty_text_is_reported_before_kind:
  "model_kind base_info = ''base'' \<and>
   wanted_kind (Instruct (Some []) (Some ''Auto'') (Some ''Vivian'') None default_adv) =
     ''custom_voice'' \<and>
   step 0 (Call (Instruct (Some []) (Some ''Auto'') (Some ''Vivian'') None default_adv))
     (init_sys 1 base_info) =
     Some \<lparr> info = base_info, active_jobs = 0, reloading = False, lock_owner = None,
            threads = [Returned Text_Required], engine_log = [] \<rparr>"
  by code_simp


section \<open>No engine loaded\<close>

text \<open>
  C9, as the code has it. \<open>_use_model\<close> has no failing path: with no engine loaded, a
  handler call that has passed its input checks acquires as always, so \<open>active_jobs\<close> is
  raised by one and a snapshot is handed over, whose engine is \<open>None\<close>. The handler then
  returns \<open>Model not loaded\<close>, an outcome of its own: the engine log is as before, the
  counter is back at its value before the call, the lock is free and the thread has
  returned. In any state whatever, the body of a handler that holds a snapshot without an
  engine goes into \<open>finally\<close> with that outcome and calls nothing; and a call that fails
  an input check returns the message of that check without acquiring.
\<close>

theorem no_engine_loaded_is_reported:
  assumes "t < length (threads s)" and "threads s ! t = Idle" and "lock_owner s = None"
    and "\<not> reloading s" and "pre_checks rq = None" and "tts (info s) = None"
  shows "run (solo t [Call rq, Tau, Tau, Tau, Tau]) s =
           Some (s\<lparr>active_jobs := active_jobs s + 1, lock_owner := None,
                  threads := (threads s)[t := Use_Body rq (snapshot_of (info s))]\<rparr>) \<and>
         snap_tts (snapshot_of (info s)) = None \<and>
         run (call_alone t rq res) s =
           Some (s\<lparr>lock_owner := None,
                  threads := (if active_jobs s \<le> 0 then map wake (threads s) else threads s)
                               [t := Returned Model_Not_Loaded]\<rparr>) \<and>
         (\<forall>s2 u rq2 sn c. u < length (threads s2) \<and> threads s2 ! u = Use_Body rq2 sn \<and>
                          snap_tts sn = None \<longrightarrow>
            step u c s2 = Some (goto u (Fin_Lock Model_Not_Loaded) s2)) \<and>
         (\<forall>rq2 out. pre_checks rq2 = Some out \<longrightarrow>
            step t (Call rq2) s = Some (goto t (Returned out) s))"
proof -
  have n: "snap_tts (snapshot_of (info s)) = None"
    by (simp add: snapshot_of_def assms(6))
  have acq: "run (solo t [Call rq, Tau, Tau, Tau, Tau]) s =
           Some (s\<lparr>active_jobs := active_jobs s + 1, lock_owner := None,
                  threads := (threads s)[t := Use_Body rq (snapshot_of (info s))]\<rparr>)"
    using assms(1-5) by (simp add: solo_Cons solo_Nil step_def step_simps)
  have bd: "\<forall>s2 u rq2 sn c. u < length (threads s2) \<and> threads s2 ! u = Use_Body rq2 sn \<and>
                          snap_tts sn = None \<longrightarrow>
            step u c s2 = Some (goto u (Fin_Lock Model_Not_Loaded) s2)"
    by (auto simp: step_def body_without_engine)
  have pre: "\<forall>rq2 out. pre_checks rq2 = Some out \<longrightarrow>
            step t (Call rq2) s = Some (goto t (Returned out) s)"
    using assms(1,2) by (simp add: step_def)
  from acq n call_alone_run [OF assms(1-5) body_without_engine [OF n]] bd pre
  show ?thesis by blast
qed

theorem no_engine_loaded_is_reported_witness:
  "(0::nat) < length (threads (init_sys 1 cleared)) \<and>
   threads (init_sys 1 cleared) ! 0 = Idle \<and>
   lock_owner (init_sys 1 cleared) = None \<and>
   \<not> reloading (init_sys 1 cleared) \<and>
   pre_checks hello_instruct = None \<and>
   tts (info (init_sys 1 cleared)) = None \<and>
   run (solo 0 [Call hello_instruct, Tau, Tau, Tau, Tau]) (init_sys 1 cleared) =
     Some nothing_loaded_acquired \<and>
   run (call_alone 0 hello_instruct ok_result) (init_sys 1 cleared) =
     Some \<lparr> info = cleared, active_jobs = 0, reloading = False, lock_owner = None,
            threads = [Returned Model_Not_Loaded], engine_log = [] \<rparr>"
proof -
  have a: "(0::nat) < length (threads (init_sys 1 cleared))" by (simp add: init_sys_def)
  have b: "threads (init_sys 1 cleared) ! 0 = Idle" by (simp add: init_sys_def)
  have c: "lock_owner (init_sys 1 cleared) = None" by (simp add: init_sys_def)
  have d: "\<not> reloading (init_sys 1 cleared)" by (simp add: init_sys_def)
  have e: "pre_checks hello_instruct = None" by code_simp
  have f: "tts (info (init_sys 1 cleared)) = None" by (simp add: init_sys_def cleared_def)
  have g: "run (solo 0 [Call hello_instruct, Tau, Tau, Tau, Tau]) (init_sys 1 cleared) =
             Some nothing_loaded_acquired"
    by code_simp
  from no_engine_loaded_is_reported [OF a b c d e f, where res = ok_result] a b c d e f g
  show ?thesis
    by (simp add: init_sys_def)
qed

text \<open>
  C9, as the claim states it, fails: with nothing loaded the acquisition does not fail.
  After the five steps of \<open>_use_model\<close> the counter is at 1 and the handler holds a
  snapshot; and the request with an empty text is answered \<open>Text is required\<close>, not
  \<open>Model not loaded\<close>.
\<close>

theorem acquire_succeeds_with_nothing_loaded:
  "tts (info (init_sys 1 cleared)) = None \<and>
   run (solo 0 [Call hello_instruct, Tau, Tau, Tau, Tau]) (init_sys 1 cleared) =
     Some nothing_loaded_acquired \<and>
   active_jobs nothing_loaded_acquired = 1 \<and>
   threads nothing_loaded_acquired = [Use_Body hello_instruct (snapshot_of cleared)] \<and>
   step 0 (Call blank_instruct) (init_sys 1 cleared) =
     Some \<lparr> info = cleared, active_jobs = 0, reloading = False, lock_owner = None,
            threads = [Returned Text_Required], engine_log = [] \<rparr>"
  by code_simp

section \<open>What the handlers check of a request\<close>

lemma body_supported:
  assumes "snap_tts sn = Some e" and "snap_model_kind sn = wanted_kind rq"
    and "pre_checks rq = None"
  shows "\<exists>call. body rq sn = Inr call \<and> call_kwargs call = gen_common_kwargs (adv_of rq)"
  using assms
  by (cases rq) (auto split: if_splits sum.splits option.splits)

text \<open>
  C7, as the code has it. No handler compares a sampling parameter with a range; the
  ranges 512 to 8192 and so on are the bounds of the sliders of the page. Each of the
  three demo handlers, for a request that passes its input checks (text not blank; a
  speaker, an instruction, or reference audio with a transcript or the flag) and finds
  an engine of its kind loaded, calls the engine with the advanced parameters as
  \<open>_gen_common_kwargs\<close> coerces them, which leaves every number as it is, and returns
  what the engine answers. Each of the three REST handlers, with an engine loaded, either
  refuses the kind of the engine (and \<open>voice_clone\<close> an upload that cannot be read) or
  calls the engine with the numbers of the request as they are and answers with what
  the engine returns. This holds for every integer \<open>max_new_tokens\<close> and every value of
  the other numbers.
\<close>

theorem sampling_parameters_are_forwarded_unchecked:
  assumes "t < length (threads s)" and "threads s ! t = Idle" and "lock_owner s = None"
    and "\<not> reloading s" and "pre_checks rq = None"
    and "tts (info s) = Some e" and "model_kind (info s) = wanted_kind rq"
    and "tts_model st = Some e2"
  shows "(\<exists>call. body rq (snapshot_of (info s)) = Inr call \<and>
            call_kwargs call = gen_common_kwargs (adv_of rq) \<and>
            run (call_alone t rq res) s =
              Some (s\<lparr>lock_owner := None, engine_log := engine_log s @ [call],
                     threads := (if active_jobs s \<le> 0 then map wake (threads s)
                                 else threads s)[t := Returned (finish res)]\<rparr>)) \<and>
         gen_common_kwargs (Adv max_tokens temp tk tp rep_pen ds sub_ds sub_temp sub_tk sub_tp) =
           \<lparr> max_new_tokens = max_tokens, temperature = temp, top_k = tk, top_p = tp,
             repetition_penalty = rep_pen, do_sample = ds, subtalker_dosample = sub_ds,
             subtalker_temperature = sub_temp, subtalker_top_k = sub_tk,
             subtalker_top_p = sub_tp \<rparr> \<and>
         custom_voice rq1 res st =
           (if model_kind_api st \<noteq> Some ''custom_voice''
            then (Http_Exception 400
                    (''Custom voice not supported for '' @ kind_text (model_kind_api st) @ '' model''),
                  st)
            else (respond ''custom_voice.wav'' res,
                  st\<lparr>api_engine_log := api_engine_log st @
                       [Generate_Custom_Voice (eng_id e2) (req_text rq1) (req_language rq1)
                          (req_speaker rq1) (req_instruct rq1) (kwargs_of rq1)]\<rparr>)) \<and>
         voice_design rq2 res st =
           (if model_kind_api st \<notin> set [Some ''voice_design'', Some ''base'']
            then (Http_Exception 400
                    (''Voice design not supported for '' @ kind_text (model_kind_api st) @ '' model''),
                  st)
            else (respond ''voice_design.wav'' res,
                  st\<lparr>api_engine_log := api_engine_log st @
                       [Generate_Voice_Design (eng_id e2) (req_text rq2) (req_language rq2)
                          (req_design rq2) (kwargs_of rq2)]\<rparr>)) \<and>
         voice_clone f res st =
           (if model_kind_api st \<noteq> Some ''base''
            then (Http_Exception 400
                    (''Voice cloning not supported for '' @ kind_text (model_kind_api st) @ '' model''),
                  st)
            else case form_ref_audio f of
                   Unreadable msg \<Rightarrow> (Http_Exception 500 msg, st)
                 | Readable i \<Rightarrow>
                     (respond ''voice_clone.wav'' res,
                      st\<lparr>api_engine_log := api_engine_log st @
                           [Generate_Voice_Clone (eng_id e2) (req_text f) (req_language f)
                              (Wav i, 12000)
                              (case form_ref_text f of None \<Rightarrow> None
                               | Some r \<Rightarrow> if r = [] then None else Some r)
                              (form_x_vector_only f) (kwargs_of f)]\<rparr>)) \<and>
         kwargs_of rq3 =
           \<lparr> max_new_tokens = req_max_new_tokens rq3, temperature = req_temperature rq3,
             top_k = req_top_k rq3, top_p = req_top_p rq3,
             repetition_penalty = req_repetition_penalty rq3, do_sample = req_do_sample rq3,
             subtalker_dosample = req_subtalker_dosample rq3,
             subtalker_temperature = req_subtalker_temperature rq3,
             subtalker_top_k = req_subtalker_top_k rq3,
             subtalker_top_p = req_subtalker_top_p rq3 \<rparr>"
proof -
  have sn: "snap_tts (snapshot_of (info s)) = Some e"
    "snap_model_kind (snapshot_of (info s)) = wanted_kind rq"
    using assms(6,7) by (simp_all add: snapshot_of_def)
  from body_supported [OF sn assms(5)] obtain call
    where b: "body rq (snapshot_of (info s)) = Inr call"
      and k: "call_kwargs call = gen_common_kwargs (adv_of rq)"
    by blast
  from call_alone_engine_run [OF assms(1-5) b, of res] b k
  have demo: "\<exists>call. body rq (snapshot_of (info s)) = Inr call \<and>
            call_kwargs call = gen_common_kwargs (adv_of rq) \<and>
            run (call_alone t rq res) s =
              Some (s\<lparr>lock_owner := None, engine_log := engine_log s @ [call],
                     threads := (if active_jobs s \<le> 0 then map wake (threads s)
                                 else threads s)[t := Returned (finish res)]\<rparr>)"
    by blast
  have cv: "custom_voice rq1 res st =
           (if model_kind_api st \<noteq> Some ''custom_voice''
            then (Http_Exception 400
                    (''Custom voice not supported for '' @ kind_text (model_kind_api st) @ '' model''),
                  st)
            else (respond ''custom_voice.wav'' res,
                  st\<lparr>api_engine_log := api_engine_log st @
                       [Generate_Custom_Voice (eng_id e2) (req_text rq1) (req_language rq1)
                          (req_speaker rq1) (req_instruct rq1) (kwargs_of rq1)]\<rparr>))"
    using assms(8) by (simp add: custom_voice_def)
  have vd: "voice_design rq2 res st =
           (if model_kind_api st \<notin> set [Some ''voice_design'', Some ''base'']
            then (Http_Exception 400
                    (''Voice design not supported for '' @ kind_text (model_kind_api st) @ '' model''),
                  st)
            else (respond ''voice_design.wav'' res,
                  st\<lparr>api_engine_log := api_engine_log st @
                       [Generate_Voice_Design (eng_id e2) (req_text rq2) (req_language rq2)
                          (req_design rq2) (kwargs_of rq2)]\<rparr>))"
    using assms(8) by (simp add: voice_design_def)
  have vc: "voice_clone f res st =
           (if model_kind_api st \<noteq> Some ''base''
            then (Http_Exception 400
                    (''Voice cloning not supported for '' @ kind_text (model_kind_api st) @ '' model''),
                  st)
            else case form_ref_audio f of
                   Unreadable msg \<Rightarrow> (Http_Exception 500 msg, st)
                 | Readable i \<Rightarrow>
                     (respond ''voice_clone.wav'' res,
                      st\<lparr>api_engine_log := api_engine_log st @
                           [Generate_Voice_Clone (eng_id e2) (req_text f) (req_language f)
                              (Wav i, 12000)
                              (case form_ref_text f of None \<Rightarrow> None
                               | Some r \<Rightarrow> if r = [] then None else Some r)
                              (form_x_vector_only f) (kwargs_of f)]\<rparr>))"
    using assms(8) by (simp add: voice_clone_def)
  have gk: "gen_common_kwargs (Adv max_tokens temp tk tp rep_pen ds sub_ds sub_temp sub_tk sub_tp) =
           \<lparr> max_new_tokens = max_tokens, temperature = temp, top_k = tk, top_p = tp,
             repetition_penalty = rep_pen, do_sample = ds, subtalker_dosample = sub_ds,
             subtalker_temperature = sub_temp, subtalker_top_k = sub_tk,
             subtalker_top_p = sub_tp \<rparr>"
    by simp
  have kw: "kwargs_of rq3 =
           \<lparr> max_new_tokens = req_max_new_tokens rq3, temperature = req_temperature rq3,
             top_k = req_top_k rq3, top_p = req_top_p rq3,
             repetition_penalty = req_repetition_penalty rq3, do_sample = req_do_sample rq3,
             subtalker_dosample = req_subtalker_dosample rq3,
             subtalker_temperature = req_subtalker_temperature rq3,
             subtalker_top_k = req_subtalker_top_k rq3,
             subtalker_top_p = req_subtalker_top_p rq3 \<rparr>"
    by (simp add: kwargs_of_def)
  from demo gk cv vd vc kw show ?thesis by blast
qed

theorem sampling_parameters_are_forwarded_unchecked_witness:
  "(0::nat) < length (threads (init_sys 1 design_info)) \<and>
   threads (init_sys 1 design_info) ! 0 = Idle \<and>
   lock_owner (init_sys 1 design_info) = None \<and>
   \<not> reloading (init_sys 1 design_info) \<and>
   pre_checks hello_design = None \<and>
   tts (info (init_sys 1 design_info)) = Some design_engine \<and>
   model_kind (info (init_sys 1 design_info)) = wanted_kind hello_design \<and>
   tts_model api_base = Some base_engine \<and>
   run (call_alone 0 hello_design ok_result) (init_sys 1 design_info) =
     Some \<lparr> info = design_info, active_jobs = 0, reloading = False, lock_owner = None,
            threads = [Returned (Generation_Complete 12000 (Wav 9))],
            engine_log =
              [Generate_Voice_Design 2 ''hi'' ''Auto'' ''calm''
                 \<lparr> max_new_tokens = 8193, temperature = 0.9, top_k = 50, top_p = 1.0,
                   repetition_penalty = 1.05, do_sample = True, subtalker_dosample = True,
                   subtalker_temperature = 0.9, subtalker_top_k = 50,
                   subtalker_top_p = 1.0 \<rparr>] \<rparr> \<and>
   voice_design (design_request 511) ok_result api_base =
     (File_Response ''voice_design.wav'' (Wav 9) 12000,
      api_base\<lparr>api_engine_log :=
        [Generate_Voice_Design 0 ''hi'' ''Auto'' ''calm'' (kwargs_of (design_request 511))]\<rparr>) \<and>
   max_new_tokens (kwargs_of (design_request 511)) = 511"
proof -
  have a1: "(0::nat) < length (threads (init_sys 1 design_info))" by (simp add: init_sys_def)
  have a2: "threads (init_sys 1 design_info) ! 0 = Idle" by (simp add: init_sys_def)
  have a3: "lock_owner (init_sys 1 design_info) = None" by (simp add: init_sys_def)
  have a4: "\<not> reloading (init_sys 1 design_info)" by (simp add: init_sys_def)
  have a5: "pre_checks hello_design = None" by code_simp
  have a6: "tts (info (init_sys 1 design_info)) = Some design_engine"
    by (simp add: init_sys_def design_info_def)
  have a7: "model_kind (info (init_sys 1 design_info)) = wanted_kind hello_design"
    by (simp add: init_sys_def design_info_def hello_design_def)
  have a8: "tts_model api_base = Some base_engine" by (simp add: api_base_def)
  have r: "run (call_alone 0 hello_design ok_result) (init_sys 1 design_info) =
     Some \<lparr> info = design_info, active_jobs = 0, reloading = False, lock_owner = None,
            threads = [Returned (Generation_Complete 12000 (Wav 9))],
            engine_log =
              [Generate_Voice_Design 2 ''hi'' ''Auto'' ''calm''
                 \<lparr> max_new_tokens = 8193, temperature = 0.9, top_k = 50, top_p = 1.0,
                   repetition_penalty = 1.05, do_sample = True, subtalker_dosample = True,
                   subtalker_temperature = 0.9, subtalker_top_k = 50,
                   subtalker_top_p = 1.0 \<rparr>] \<rparr>"
    by code_simp
  have v: "voice_design (design_request 511) ok_result api_base =
     (File_Response ''voice_design.wav'' (Wav 9) 12000,
      api_base\<lparr>api_engine_log :=
        [Generate_Voice_Design 0 ''hi'' ''Auto'' ''calm'' (kwargs_of (design_request 511))]\<rparr>)"
    by code_simp
  from sampling_parameters_are_forwarded_unchecked
         [OF a1 a2 a3 a4 a5 a6 a7 a8, where ?rq3.0 = "design_request 511"]
  have "kwargs_of (design_request 511) =
           \<lparr> max_new_tokens = req_max_new_tokens (design_request 511),
             temperature = req_temperature (design_request 511),
             top_k = req_top_k (design_request 511), top_p = req_top_p (design_request 511),
             repetition_penalty = req_repetition_penalty (design_request 511),
             do_sample = req_do_sample (design_request 511),
             subtalker_dosample = req_subtalker_dosample (design_request 511),
             subtalker_temperature = req_subtalker_temperature (design_request 511),
             subtalker_top_k = req_subtalker_top_k (design_request 511),
             subtalker_top_p = req_subtalker_top_p (design_request 511) \<rparr>"
    by blast
  then have k: "max_new_tokens (kwargs_of (design_request 511)) = 511"
    by (simp add: design_request_def)
  from a1 a2 a3 a4 a5 a6 a7 a8 r v k show ?thesis by simp
qed

text \<open>
  C7, as the claim states it, fails: with a CustomVoice engine loaded, the REST request
  with \<open>max_new_tokens = 511\<close> is not refused. The engine is called with 511 and its
  audio is returned; the same holds for 8193.
\<close>

theorem max_new_tokens_511_is_accepted:
  "custom_voice (custom_request 511) ok_result api_custom =
     (File_Response ''custom_voice.wav'' (Wav 9) 12000,
      api_custom\<lparr>api_engine_log :=
        [Generate_Custom_Voice 1 ''hi'' ''Auto'' ''Vivian'' None
           \<lparr> max_new_tokens = 511, temperature = 0.9, top_k = 50, top_p = 1.0,
             repetition_penalty = 1.05, do_sample = True, subtalker_dosample = True,
             subtalker_temperature = 0.9, subtalker_top_k = 50, subtalker_top_p = 1.0 \<rparr>]\<rparr>) \<and>
   custom_voice (custom_request 8193) ok_result api_custom =
     (File_Response ''custom_voice.wav'' (Wav 9) 12000,
      api_custom\<lparr>api_engine_log :=
        [Generate_Custom_Voice 1 ''hi'' ''Auto'' ''Vivian'' None
           \<lparr> max_new_tokens = 8193, temperature = 0.9, top_k = 50, top_p = 1.0,
             repetition_penalty = 1.05, do_sample = True, subtalker_dosample = True,
             subtalker_temperature = 0.9, subtalker_top_k = 50, subtalker_top_p = 1.0 \<rparr>]\<rparr>)"
  by code_simp


section \<open>What a clone request must carry\<close>

text \<open>
  The demo handler \<open>run_voice_clone\<close> returns before it acquires anything when the
  reference audio is missing or when neither a transcript nor the flag is given.
\<close>

lemma run_voice_clone_requires_reference:
  assumes "audio_to_tuple ref_aud = Inr None \<or> (\<not> use_xvec \<and> blank ref_txt)"
    and "t < length (threads s)" and "threads s ! t = Idle"
  shows "\<exists>out. pre_checks (Clone ref_aud ref_txt use_xvec txt lang_disp adv) = Some out \<and>
           step t (Call (Clone ref_aud ref_txt use_xvec txt lang_disp adv)) s =
             Some (s\<lparr>threads := (threads s)[t := Returned out]\<rparr>)"
  using assms
  by (auto simp: step_def goto_def split: sum.splits option.splits)

text \<open>
  C8 at the REST handler \<open>voice_clone\<close>: with the Base engine loaded, a form that carries
  reference audio but neither a transcript nor the x-vector-only flag is not refused.
  The engine is called with \<open>ref_text = None\<close> and \<open>x_vector_only_mode = False\<close>, and the
  answer is whatever the engine makes of it.
\<close>

theorem voice_clone_calls_engine_without_transcript:
  "voice_clone (clone_form None False) res api_base =
     (respond ''voice_clone.wav'' res,
      api_base\<lparr>api_engine_log :=
        [Generate_Voice_Clone 0 ''hi'' ''Auto'' (Wav 7, 12000) None False
           (kwargs_of (clone_form None False))]\<rparr>)"
  by (simp add: voice_clone_def clone_form_def api_base_def base_engine_def kwargs_of_def)

end
